theory Spec2Isabelle
  imports Complex_Main "HOL-Library.Word" "HOL-Library.AList"
begin

section \<open>Stage 8: validation results (stage8\_validation.py)\<close>

text \<open>
  Python floats that may be NaN or infinite (the validator inspects vertex normals for
  exactly these values) are modelled by \<open>fval\<close>; \<open>isnan\<close> and \<open>isinf\<close> are numpy's
  predicates of the same names.
\<close>

datatype fval = Fin real | PosInf | NegInf | NaN

fun isnan :: "fval \<Rightarrow> bool" where
  "isnan NaN = True"
| "isnan _ = False"

fun isinf :: "fval \<Rightarrow> bool" where
  "isinf PosInf = True"
| "isinf NegInf = True"
| "isinf _ = False"

text \<open>np.any over the three components of a vector.\<close>

definition any3 :: "('a \<Rightarrow> bool) \<Rightarrow> 'a \<times> 'a \<times> 'a \<Rightarrow> bool" where
  "any3 p v = (case v of (a, b, c) \<Rightarrow> p a \<or> p b \<or> p c)"

text \<open>
  The mesh of stage6\_3d\_construction.py. The scalar type is a parameter: the builder and
  the openings generator compute with idealised reals, the validator looks at \<open>fval\<close>.
  \<open>vertex_hash_map\<close> is the deduplication dictionary from rounded position to index.
\<close>

record 'a Vertex =
  position :: "'a \<times> 'a \<times> 'a"
  normal :: "'a \<times> 'a \<times> 'a"

record 'a Face =
  vertex_indices :: "nat \<times> nat \<times> nat"
  face_normal :: "('a \<times> 'a \<times> 'a) option"

record 'a Mesh =
  name :: string
  vertices_m :: "'a Vertex list"
  faces :: "'a Face list"
  vertex_hash_map :: "('a \<times> 'a \<times> 'a) \<rightharpoonup> nat"

record ValidationResult =
  passed :: bool
  checks :: "(string \<times> bool \<times> string) list"
  warnings :: "string list"
  errors :: "string list"

definition ValidationResult_init :: ValidationResult where
  "ValidationResult_init = \<lparr>passed = True, checks = [], warnings = [], errors = []\<rparr>"

definition add_check :: "ValidationResult \<Rightarrow> string \<Rightarrow> bool \<Rightarrow> string \<Rightarrow> ValidationResult" where
  "add_check r nm ok message =
     (let r1 = r\<lparr>checks := checks r @ [(nm, ok, message)]\<rparr>
      in if \<not> ok then r1\<lparr>passed := False, errors := errors r1 @ [message]\<rparr> else r1)"

definition add_warning :: "ValidationResult \<Rightarrow> string \<Rightarrow> ValidationResult" where
  "add_warning r message = r\<lparr>warnings := warnings r @ [message]\<rparr>"

text \<open>Decimal rendering of a natural number, as an f-string prints an index.\<close>

fun str_nat :: "nat \<Rightarrow> string" where
  "str_nat n =
     (if n < 10 then [''0123456789'' ! n]
      else str_nat (n div 10) @ [''0123456789'' ! (n mod 10)])"

declare str_nat.simps [simp del]

definition invalid_normal :: "fval Vertex \<Rightarrow> bool" where
  "invalid_normal v = (any3 isnan (normal v) \<or> any3 isinf (normal v))"

text \<open>
  The loop of \<open>_check_numerical_validity\<close>: the first vertex (by index) with an invalid
  normal adds one warning and the loop breaks.
\<close>

fun normals_loop :: "ValidationResult \<Rightarrow> nat \<Rightarrow> fval Vertex list \<Rightarrow> ValidationResult" where
  "normals_loop r i [] = r"
| "normals_loop r i (v # vs) =
     (if invalid_normal v
      then add_warning r (''Vertex '' @ str_nat i @ '' has invalid normal'')
      else normals_loop r (Suc i) vs)"

definition check_numerical_validity :: "ValidationResult \<Rightarrow> fval Mesh \<Rightarrow> ValidationResult" where
  "check_numerical_validity r m =
     add_check (normals_loop r 0 (vertices_m m))
       ''Numerical Validity'' True ''No critical numerical errors''"

text \<open>A two-vertex mesh whose second vertex carries an invalid normal.\<close>

definition nan_mesh :: "fval Mesh" where
  "nan_mesh = \<lparr>name = ''m'', vertices_m =
      [\<lparr>position = (Fin 0, Fin 0, Fin 0), normal = (Fin 0, Fin 0, Fin 1)\<rparr>,
       \<lparr>position = (Fin 1, Fin 0, Fin 0), normal = (NaN, Fin 0, PosInf)\<rparr>],
     faces = [], vertex_hash_map = Map.empty\<rparr>"

section \<open>Stage 9: the binary container (stage9\_export.py)\<close>

type_synonym byte = "8 word"

text \<open>
  \<open>struct.pack('<I', n)\<close>: four bytes, least significant first; it raises
  \<open>struct.error\<close> when \<open>n\<close> does not fit 32 bits. \<open>struct_pack_le\<close> is the format
  string \<open>'<I...I'\<close> with one \<open>I\<close> per argument.
\<close>

datatype export_error = StructError | IOError

definition GLTF_MAGIC :: nat where
  "GLTF_MAGIC = 0x46546C67"

definition GLTF_VERSION :: nat where
  "GLTF_VERSION = 2"

definition le32 :: "nat \<Rightarrow> byte list" where
  "le32 n = [of_nat n, of_nat (n div 2 ^ 8), of_nat (n div 2 ^ 16), of_nat (n div 2 ^ 24)]"

fun struct_pack_le :: "nat list \<Rightarrow> export_error + byte list" where
  "struct_pack_le [] = Inr []"
| "struct_pack_le (n # ns) =
     (if n < 2 ^ 32
      then (case struct_pack_le ns of Inl e \<Rightarrow> Inl e | Inr bs \<Rightarrow> Inr (le32 n @ bs))
      else Inl StructError)"

text \<open>Reading an unsigned 32-bit little-endian field back (what a consumer of the file does).\<close>

fun u32_le :: "byte list \<Rightarrow> nat" where
  "u32_le [b0, b1, b2, b3] = unat b0 + 2 ^ 8 * unat b1 + 2 ^ 16 * unat b2 + 2 ^ 24 * unat b3"
| "u32_le _ = 0"

text \<open>
  \<open>GLBExporter._write_glb_file\<close>. \<open>gltf_json_bytes\<close> is \<open>json.dumps(gltf_dict).encode('utf-8')\<close>
  and \<open>buffer_data\<close> the exporter's geometry buffer. \<open>io_ok\<close> says whether creating the
  directory and writing the file succeed. The result \<open>Inr bs\<close> is the content of the file
  written (the source returns True); \<open>Inl IOError\<close> is the caught write failure (the source
  returns False); \<open>Inl StructError\<close> is the exception of \<open>struct.pack\<close>, raised before
  anything is written.
\<close>

definition write_glb_file :: "bool \<Rightarrow> byte list \<Rightarrow> byte list \<Rightarrow> export_error + byte list" where
  "write_glb_file io_ok gltf_json_bytes buffer_data =
     (let json_padding = (4 - length gltf_json_bytes mod 4) mod 4;
          json_chunk_data = gltf_json_bytes @ replicate json_padding (0x20 :: byte);
          json_chunk_type = (0x4E4F534A :: nat)
      in case struct_pack_le [length json_chunk_data, json_chunk_type] of
           Inl e \<Rightarrow> Inl e
         | Inr json_head \<Rightarrow>
      (let json_chunk = json_head @ json_chunk_data;
           bin_chunk_type = (0x004E4942 :: nat);
           bin_padding = (4 - length buffer_data mod 4) mod 4;
           bin_chunk_data = buffer_data @ replicate bin_padding (0x00 :: byte)
       in case struct_pack_le [length bin_chunk_data, bin_chunk_type] of
            Inl e \<Rightarrow> Inl e
          | Inr bin_head \<Rightarrow>
       (let bin_chunk = bin_head @ bin_chunk_data;
            file_size = 12 + length json_chunk + length bin_chunk
        in case struct_pack_le [GLTF_MAGIC, GLTF_VERSION, file_size] of
             Inl e \<Rightarrow> Inl e
           | Inr glb_header \<Rightarrow>
               if io_ok then Inr (glb_header @ json_chunk @ bin_chunk) else Inl IOError)))"

text \<open>
  The 40 bytes written for the JSON text \<open>{}\<close> and a five-byte buffer: header, JSON chunk
  (two bytes of text, two spaces of padding), binary chunk (five bytes, three zero bytes).
\<close>

definition example_glb :: "byte list" where
  "example_glb =
     [0x67, 0x6C, 0x54, 0x46,  0x02, 0x00, 0x00, 0x00,  0x28, 0x00, 0x00, 0x00,
      0x04, 0x00, 0x00, 0x00,  0x4A, 0x53, 0x4F, 0x4E,  0x7B, 0x7D, 0x20, 0x20,
      0x08, 0x00, 0x00, 0x00,  0x42, 0x49, 0x4E, 0x00,  0x01, 0x02, 0x03, 0x04,
      0x05, 0x00, 0x00, 0x00]"

section \<open>Stage 7: cutting openings (stage7\_openings.py)\<close>

text \<open>
  Python exceptions that the modelled code can raise: an index outside a list, a key
  missing from a dictionary.
\<close>

datatype py_error = IndexError | KeyError

type_synonym vec3 = "real \<times> real \<times> real"

text \<open>\<open>mesh.vertices[i]\<close> for an index taken from a face (never negative).\<close>

definition vertex_at :: "'a Mesh \<Rightarrow> nat \<Rightarrow> py_error + 'a Vertex" where
  "vertex_at m i = (if i < length (vertices_m m) then Inr (vertices_m m ! i) else Inl IndexError)"

text \<open>The positions \<open>v0, v1, v2\<close> of a face's three vertices.\<close>

definition face_positions :: "'a Mesh \<Rightarrow> 'a Face \<Rightarrow> py_error + ('a \<times> 'a \<times> 'a) list" where
  "face_positions m f =
     (case vertex_indices f of (vi0, vi1, vi2) \<Rightarrow>
        (case vertex_at m vi0 of Inl e \<Rightarrow> Inl e | Inr a \<Rightarrow>
        (case vertex_at m vi1 of Inl e \<Rightarrow> Inl e | Inr b \<Rightarrow>
        (case vertex_at m vi2 of Inl e \<Rightarrow> Inl e | Inr c \<Rightarrow>
           Inr [position a, position b, position c]))))"

text \<open>
  The cutting volume \<open>(x_min, x_max, y_min, y_max, z_bottom, z_top)\<close> and the test of the
  source: \<open>all(x_min <= v[0] <= x_max ...)\<close> and the same for y and z.
\<close>

type_synonym cut_box = "real \<times> real \<times> real \<times> real \<times> real \<times> real"

definition in_cut_volume :: "cut_box \<Rightarrow> vec3 list \<Rightarrow> bool" where
  "in_cut_volume box vs =
     (case box of (x_min, x_max, y_min, y_max, z_bottom, z_top) \<Rightarrow>
        (let in_x_range = list_all (\<lambda>v. x_min \<le> fst v \<and> fst v \<le> x_max) vs;
             in_y_range = list_all (\<lambda>v. y_min \<le> fst (snd v) \<and> fst (snd v) \<le> y_max) vs;
             in_z_range = list_all (\<lambda>v. z_bottom \<le> snd (snd v) \<and> snd (snd v) \<le> z_top) vs
         in in_x_range \<and> in_y_range \<and> in_z_range))"

text \<open>The first loop: the indices of the faces to remove, in increasing order.\<close>

fun faces_to_remove :: "real Mesh \<Rightarrow> cut_box \<Rightarrow> nat \<Rightarrow> real Face list \<Rightarrow> py_error + nat list" where
  "faces_to_remove m box face_idx [] = Inr []"
| "faces_to_remove m box face_idx (face # rest) =
     (case face_positions m face of
        Inl e \<Rightarrow> Inl e
      | Inr vs \<Rightarrow>
          (case faces_to_remove m box (Suc face_idx) rest of
             Inl e \<Rightarrow> Inl e
           | Inr idxs \<Rightarrow> Inr (if in_cut_volume box vs then face_idx # idxs else idxs)))"

text \<open>\<open>list.pop(idx)\<close> and the second loop, over \<open>sorted(faces_to_remove, reverse=True)\<close>.\<close>

definition pop_at :: "'a list \<Rightarrow> nat \<Rightarrow> py_error + 'a list" where
  "pop_at xs idx = (if idx < length xs then Inr (take idx xs @ drop (Suc idx) xs) else Inl IndexError)"

fun pop_all :: "'a list \<Rightarrow> nat list \<Rightarrow> py_error + 'a list" where
  "pop_all xs [] = Inr xs"
| "pop_all xs (idx # idxs) =
     (case pop_at xs idx of Inl e \<Rightarrow> Inl e | Inr xs' \<Rightarrow> pop_all xs' idxs)"

text \<open>
  \<open>ManifoldBoolean.cut_rectangular_hole\<close>. The source mutates the mesh and returns True;
  the model returns the mesh after the call, or the exception raised.
\<close>

definition cut_rectangular_hole ::
  "real Mesh \<Rightarrow> real \<Rightarrow> real \<Rightarrow> real \<Rightarrow> real \<Rightarrow> real \<Rightarrow> real \<Rightarrow> py_error + real Mesh" where
  "cut_rectangular_hole m center_x center_y width height z_bottom z_top =
     (let hw = width / 2;
          hh = height / 2;
          x_min = center_x - hw; x_max = center_x + hw;
          y_min = center_y - hh; y_max = center_y + hh
      in case faces_to_remove m (x_min, x_max, y_min, y_max, z_bottom, z_top) 0 (faces m) of
           Inl e \<Rightarrow> Inl e
         | Inr idxs \<Rightarrow>
             (case pop_all (faces m) (rev (sort idxs)) of
                Inl e \<Rightarrow> Inl e
              | Inr fs \<Rightarrow> Inr (m\<lparr>faces := fs\<rparr>)))"

text \<open>
  The two readings of "within the cut volume" for one face of a mesh: with the bounds
  included (the comparison the source makes) and strictly inside (the wording of the
  specification). Both are False for a face that names a vertex the mesh does not have.
\<close>

definition face_within :: "real Mesh \<Rightarrow> cut_box \<Rightarrow> real Face \<Rightarrow> bool" where
  "face_within m box f =
     (case face_positions m f of Inl e \<Rightarrow> False | Inr vs \<Rightarrow> in_cut_volume box vs)"

definition face_strictly_within :: "real Mesh \<Rightarrow> cut_box \<Rightarrow> real Face \<Rightarrow> bool" where
  "face_strictly_within m box f =
     (case box of (x_min, x_max, y_min, y_max, z_bottom, z_top) \<Rightarrow>
        (case face_positions m f of
           Inl e \<Rightarrow> False
         | Inr vs \<Rightarrow>
             list_all (\<lambda>v. x_min < fst v \<and> fst v < x_max
                         \<and> y_min < fst (snd v) \<and> fst (snd v) < y_max
                         \<and> z_bottom < snd (snd v) \<and> snd (snd v) < z_top) vs))"

text \<open>All faces of the mesh name vertices the mesh has.\<close>

definition faces_in_range :: "'a Mesh \<Rightarrow> bool" where
  "faces_in_range m =
     list_all (\<lambda>f. case vertex_indices f of (a, b, c) \<Rightarrow>
                 a < length (vertices_m m) \<and> b < length (vertices_m m) \<and> c < length (vertices_m m))
       (faces m)"

text \<open>
  A one-triangle mesh whose three vertices lie on the boundary of the unit cutting volume
  centred at (1/2, 1/2), and a two-triangle mesh with one face inside and one outside.
\<close>

definition boundary_mesh :: "real Mesh" where
  "boundary_mesh =
     \<lparr>name = ''m'',
      vertices_m = [\<lparr>position = (0, 0, 0), normal = (0, 0, 1)\<rparr>,
                    \<lparr>position = (1, 0, 0), normal = (0, 0, 1)\<rparr>,
                    \<lparr>position = (0, 1, 0), normal = (0, 0, 1)\<rparr>],
      faces = [\<lparr>vertex_indices = (0, 1, 2), face_normal = None\<rparr>],
      vertex_hash_map = [(0, 0, 0) \<mapsto> 0, (1, 0, 0) \<mapsto> 1, (0, 1, 0) \<mapsto> 2]\<rparr>"

definition two_face_mesh :: "real Mesh" where
  "two_face_mesh =
     \<lparr>name = ''m'',
      vertices_m = [\<lparr>position = (1/4, 1/4, 1/4), normal = (0, 0, 1)\<rparr>,
                    \<lparr>position = (3/4, 1/4, 1/4), normal = (0, 0, 1)\<rparr>,
                    \<lparr>position = (1/4, 3/4, 1/4), normal = (0, 0, 1)\<rparr>,
                    \<lparr>position = (5, 5, 5), normal = (0, 0, 1)\<rparr>],
      faces = [\<lparr>vertex_indices = (0, 1, 2), face_normal = None\<rparr>,
               \<lparr>vertex_indices = (1, 2, 3), face_normal = None\<rparr>],
      vertex_hash_map = Map.empty\<rparr>"

text \<open>
  The vertex arrays \<open>GLBExporter._prepare_geometry\<close> puts into the buffer: the positions
  and the normals of all vertices of the mesh, in list order (before their conversion to
  32-bit floats); nothing when the mesh has no vertex or no face.
\<close>

definition prepare_vertex_arrays :: "'a Mesh \<Rightarrow> (('a \<times> 'a \<times> 'a) list \<times> ('a \<times> 'a \<times> 'a) list) option" where
  "prepare_vertex_arrays m =
     (if vertices_m m = [] \<or> faces m = [] then None
      else Some (map position (vertices_m m), map normal (vertices_m m)))"

section \<open>Stage 3: the wall topology graph (stage3\_topology\_extraction.py)\<close>

text \<open>
  Dictionaries keep insertion order, so \<open>vertices\<close>, \<open>edges\<close> and \<open>adjacency\<close> are
  association lists updated with \<open>AList.update\<close> (replace the value of an existing key,
  append a new key). An edge refers to its two vertex objects; the model stores their ids
  and reads the objects in \<open>vertices\<close>, which is where \<open>add_vertex\<close> put them. A set of
  neighbour ids is a duplicate-free list; Python fixes no iteration order for a set, and
  the results below are shown not to depend on it. Coordinates and lengths are floats,
  modelled by reals.
\<close>

record WallVertex =
  id_v :: nat
  position_v :: "real \<times> real"
  is_junction :: bool
  is_corner :: bool
  degree :: nat

record WallEdge =
  id_e :: nat
  vertex_a :: nat
  vertex_b :: nat
  length_px :: real
  points :: "(real \<times> real) list"

record WallTopologyGraph =
  vertices :: "(nat \<times> WallVertex) list"
  edges :: "(nat \<times> WallEdge) list"
  vertex_counter :: nat
  edge_counter :: nat
  adjacency :: "(nat \<times> nat list) list"

definition WallTopologyGraph_init :: WallTopologyGraph where
  "WallTopologyGraph_init =
     \<lparr>vertices = [], edges = [], vertex_counter = 0, edge_counter = 0, adjacency = []\<rparr>"

definition add_vertex :: "WallTopologyGraph \<Rightarrow> real \<times> real \<Rightarrow> bool \<Rightarrow> bool \<Rightarrow> WallTopologyGraph \<times> WallVertex" where
  "add_vertex g pos junction corner =
     (let vertex = \<lparr>id_v = vertex_counter g, position_v = pos, is_junction = junction,
                     is_corner = corner, degree = 0\<rparr>
      in (g\<lparr>vertices := AList.update (id_v vertex) vertex (vertices g),
            adjacency := AList.update (id_v vertex) [] (adjacency g),
            vertex_counter := vertex_counter g + 1\<rparr>,
          vertex))"

text \<open>
  \<open>add_edge\<close>, given the ids of the two vertex objects. \<open>self.adjacency[vertex_a.id]\<close> raises
  KeyError for an id the graph does not have. \<open>vertex.degree += 1\<close> changes the vertex
  object, that is the entry of \<open>vertices\<close> with that id.
\<close>

definition add_edge :: "WallTopologyGraph \<Rightarrow> nat \<Rightarrow> nat \<Rightarrow> real \<Rightarrow> (real \<times> real) list \<Rightarrow> py_error + WallTopologyGraph \<times> WallEdge" where
  "add_edge g a b len pts =
     (let edge = \<lparr>id_e = edge_counter g, vertex_a = a, vertex_b = b, length_px = len, points = pts\<rparr>;
          edges1 = AList.update (id_e edge) edge (edges g)
      in case map_of (adjacency g) a of
           None \<Rightarrow> Inl KeyError
         | Some na \<Rightarrow>
             (let adj1 = AList.update a (List.insert b na) (adjacency g)
              in case map_of adj1 b of
                   None \<Rightarrow> Inl KeyError
                 | Some nb \<Rightarrow>
                     (let adj2 = AList.update b (List.insert a nb) adj1;
                          vs1 = AList.map_entry a (\<lambda>v. v\<lparr>degree := degree v + 1\<rparr>) (vertices g);
                          vs2 = AList.map_entry b (\<lambda>v. v\<lparr>degree := degree v + 1\<rparr>) vs1
                      in Inr (g\<lparr>vertices := vs2, edges := edges1, adjacency := adj2,
                                edge_counter := edge_counter g + 1\<rparr>,
                              edge))))"

text \<open>
  The loop of \<open>_is_connected\<close>: \<open>queue.pop(0)\<close>, skip a visited id, otherwise mark it and
  append its unvisited neighbours. \<open>visited\<close> is the list of ids in the order they were
  added to the set.
\<close>

function bfs :: "(nat \<times> nat list) list \<Rightarrow> nat list \<Rightarrow> nat list \<Rightarrow> py_error + nat list" where
  "bfs adj [] visited = Inr visited"
| "bfs adj (vid # queue) visited =
     (if vid \<in> set visited then bfs adj queue visited
      else (case map_of adj vid of
              None \<Rightarrow> Inl KeyError
            | Some ns \<Rightarrow>
                bfs adj (queue @ filter (\<lambda>neighbor_id. neighbor_id \<notin> set (visited @ [vid])) ns)
                  (visited @ [vid])))"
  by pat_completeness auto
termination
proof (relation "(\<lambda>(adj, queue, visited). card (fst ` set adj - set visited)) <*mlex*>
                 measure (\<lambda>(adj, queue, visited). length queue)")
  show "wf ((\<lambda>(adj, queue, visited). card (fst ` set adj - set visited)) <*mlex*>
            measure (\<lambda>(adj, queue, visited). length queue))"
    by (simp add: wf_mlex)
next
  fix adj :: "(nat \<times> nat list) list" and vid :: nat and queue visited :: "nat list"
  show "((adj, queue, visited), (adj, vid # queue, visited))
        \<in> (\<lambda>(adj, queue, visited). card (fst ` set adj - set visited)) <*mlex*>
            measure (\<lambda>(adj, queue, visited). length queue)"
    by (simp add: mlex_iff)
next
  fix adj :: "(nat \<times> nat list) list" and vid queue visited ns
  assume new: "vid \<notin> set visited" and key: "map_of adj vid = Some ns"
  from key have "vid \<in> fst ` set adj"
    by (metis map_of_eq_None_iff option.distinct(1))
  with new have "card (fst ` set adj - set (visited @ [vid])) < card (fst ` set adj - set visited)"
    by (intro psubset_card_mono) auto
  then show "((adj, queue @ filter (\<lambda>neighbor_id. neighbor_id \<notin> set (visited @ [vid])) ns, visited @ [vid]),
              (adj, vid # queue, visited))
        \<in> (\<lambda>(adj, queue, visited). card (fst ` set adj - set visited)) <*mlex*>
            measure (\<lambda>(adj, queue, visited). length queue)"
    by (simp add: mlex_iff)
qed

declare bfs.simps [simp del]

definition is_connected :: "WallTopologyGraph \<Rightarrow> py_error + bool" where
  "is_connected g =
     (case vertices g of
        [] \<Rightarrow> Inr False
      | (start_vertex_id, v) # rest \<Rightarrow>
          (case bfs (adjacency g) [start_vertex_id] [] of
             Inl e \<Rightarrow> Inl e
           | Inr visited \<Rightarrow> Inr (length visited = length (vertices g))))"

definition validate :: "WallTopologyGraph \<Rightarrow> py_error + bool \<times> string" where
  "validate g =
     (if length (vertices g) < 2 then Inr (False, ''Graph has fewer than 2 vertices'')
      else if length (edges g) < 1 then Inr (False, ''Graph has no edges'')
      else (case is_connected g of
              Inl e \<Rightarrow> Inl e
            | Inr is_conn \<Rightarrow>
                if \<not> is_conn then Inr (False, ''Graph is not connected (broken wall topology)'')
                else Inr (True, ''Graph structure valid'')))"

text \<open>
  The graphs that the class can produce: the empty graph of the constructor, and what
  \<open>add_vertex\<close> and a returning \<open>add_edge\<close> make of such a graph.
\<close>

inductive built :: "WallTopologyGraph \<Rightarrow> bool" where
  built_init: "built WallTopologyGraph_init"
| built_vertex: "built g \<Longrightarrow> built (fst (add_vertex g pos junction corner))"
| built_edge: "built g \<Longrightarrow> add_edge g a b len pts = Inr (g', e) \<Longrightarrow> built g'"

text \<open>
  The invariant these graphs have: the three dictionaries have no repeated key, \<open>vertices\<close>
  and \<open>adjacency\<close> have the same keys, every vertex is stored under its own id, neighbour
  ids and edge endpoints are keys, and adjacency is symmetric.
\<close>

definition wf_graph :: "WallTopologyGraph \<Rightarrow> bool" where
  "wf_graph g =
     (distinct (map fst (vertices g)) \<and> distinct (map fst (adjacency g))
      \<and> distinct (map fst (edges g))
      \<and> set (map fst (adjacency g)) = set (map fst (vertices g))
      \<and> list_all (\<lambda>(k, v). id_v v = k \<and> k < vertex_counter g) (vertices g)
      \<and> list_all (\<lambda>(k, e). id_e e = k \<and> k < edge_counter g
                     \<and> vertex_a e \<in> set (map fst (vertices g))
                     \<and> vertex_b e \<in> set (map fst (vertices g))) (edges g)
      \<and> list_all (\<lambda>(k, ns). list_all (\<lambda>n. n \<in> set (map fst (vertices g))
                                     \<and> (case map_of (adjacency g) n of
                                           None \<Rightarrow> False | Some ms \<Rightarrow> k \<in> set ms)) ns)
           (adjacency g))"

text \<open>A path-shaped graph on three vertices, built with the class's operations.\<close>

definition path_graph :: WallTopologyGraph where
  "path_graph =
     \<lparr>vertices = [(0, \<lparr>id_v = 0, position_v = (0, 0), is_junction = False, is_corner = False, degree = 1\<rparr>),
                  (1, \<lparr>id_v = 1, position_v = (10, 0), is_junction = False, is_corner = True, degree = 2\<rparr>),
                  (2, \<lparr>id_v = 2, position_v = (10, 10), is_junction = False, is_corner = False, degree = 1\<rparr>)],
      edges = [(0, \<lparr>id_e = 0, vertex_a = 0, vertex_b = 1, length_px = 10, points = [(0, 0), (10, 0)]\<rparr>),
               (1, \<lparr>id_e = 1, vertex_a = 1, vertex_b = 2, length_px = 10, points = [(10, 0), (10, 10)]\<rparr>)],
      vertex_counter = 3, edge_counter = 2,
      adjacency = [(0, [1]), (1, [2, 0]), (2, [1])]\<rparr>"

text \<open>The neighbour relation an adjacency dictionary stands for (used to state what \<open>bfs\<close> computes).\<close>

definition adj_rel :: "(nat \<times> nat list) list \<Rightarrow> (nat \<times> nat) set" where
  "adj_rel adj = {(a, b). \<exists>ns. map_of adj a = Some ns \<and> b \<in> set ns}"

text \<open>
  Breadth-first traversal from every vertex of the graph visits exactly the graph's
  vertices (and raises no exception).
\<close>

definition bfs_reaches_all :: "WallTopologyGraph \<Rightarrow> bool" where
  "bfs_reaches_all g =
     list_all (\<lambda>s. case bfs (adjacency g) [s] [] of
                      Inl e \<Rightarrow> False
                    | Inr visited \<Rightarrow> set visited = set (map fst (vertices g)))
       (map fst (vertices g))"

text \<open>
  \<open>TopologyExtractor._build_graph\<close>, from the key points that \<open>_detect_key_points\<close> found on
  the skeleton (the skeleton itself comes from OpenCV's thinning, outside this
  repository). First loop: one vertex per key point. Second loop: every pair of vertices,
  in dictionary order, closer than 50 pixels gets an edge whose path is the placeholder of
  \<open>_trace_skeleton_path\<close>, the two end points after \<open>int()\<close>.
\<close>

fun add_key_points :: "WallTopologyGraph \<Rightarrow> (int \<times> int) list \<Rightarrow> (int \<times> int) list \<Rightarrow> (int \<times> int) list \<Rightarrow> WallTopologyGraph" where
  "add_key_points g junctions corners [] = g"
| "add_key_points g junctions corners ((x, y) # ps) =
     add_key_points
       (fst (add_vertex g (real_of_int x, real_of_int y) ((x, y) \<in> set junctions) ((x, y) \<in> set corners)))
       junctions corners ps"

definition py_int :: "real \<Rightarrow> int" where
  "py_int x = (if 0 \<le> x then \<lfloor>x\<rfloor> else \<lceil>x\<rceil>)"

definition trace_skeleton_path :: "int \<times> int \<Rightarrow> int \<times> int \<Rightarrow> (real \<times> real) list option" where
  "trace_skeleton_path start end_pt =
     Some [(real_of_int (fst start), real_of_int (snd start)),
           (real_of_int (fst end_pt), real_of_int (snd end_pt))]"

definition connect_pair :: "WallTopologyGraph \<Rightarrow> WallVertex \<Rightarrow> WallVertex \<Rightarrow> py_error + WallTopologyGraph" where
  "connect_pair g v1 v2 =
     (let dist = sqrt ((fst (position_v v1) - fst (position_v v2))\<^sup>2
                       + (snd (position_v v1) - snd (position_v v2))\<^sup>2)
      in if dist < 50
         then (case trace_skeleton_path
                      (py_int (fst (position_v v1)), py_int (snd (position_v v1)))
                      (py_int (fst (position_v v2)), py_int (snd (position_v v2))) of
                 None \<Rightarrow> Inr g
               | Some path \<Rightarrow>
                   (case add_edge g (id_v v1) (id_v v2) dist path of
                      Inl e \<Rightarrow> Inl e
                    | Inr (g', edge) \<Rightarrow> Inr g'))
         else Inr g)"

fun connect_inner :: "WallTopologyGraph \<Rightarrow> WallVertex \<Rightarrow> WallVertex list \<Rightarrow> py_error + WallTopologyGraph" where
  "connect_inner g v1 [] = Inr g"
| "connect_inner g v1 (v2 # rest) =
     (case connect_pair g v1 v2 of Inl e \<Rightarrow> Inl e | Inr g' \<Rightarrow> connect_inner g' v1 rest)"

fun connect_outer :: "WallTopologyGraph \<Rightarrow> WallVertex list \<Rightarrow> py_error + WallTopologyGraph" where
  "connect_outer g [] = Inr g"
| "connect_outer g (v1 # rest) =
     (case connect_inner g v1 rest of Inl e \<Rightarrow> Inl e | Inr g' \<Rightarrow> connect_outer g' rest)"

definition build_graph :: "(int \<times> int) list \<Rightarrow> (int \<times> int) list \<Rightarrow> (int \<times> int) list \<Rightarrow> py_error + WallTopologyGraph" where
  "build_graph junctions corners endpoints =
     (let g = add_key_points WallTopologyGraph_init junctions corners (junctions @ corners @ endpoints)
      in connect_outer g (map snd (vertices g)))"

text \<open>
  \<open>stage3_topology_extraction\<close> after key-point detection: build the graph, validate it,
  return it (\<open>Some\<close>) or \<open>None\<close>.
\<close>

definition stage3_topology_extraction :: "(int \<times> int) list \<Rightarrow> (int \<times> int) list \<Rightarrow> (int \<times> int) list \<Rightarrow> py_error + WallTopologyGraph option" where
  "stage3_topology_extraction junctions corners endpoints =
     (case build_graph junctions corners endpoints of
        Inl e \<Rightarrow> Inl e
      | Inr graph \<Rightarrow>
          (case validate graph of
             Inl e \<Rightarrow> Inl e
           | Inr (is_valid, message) \<Rightarrow> if \<not> is_valid then Inr None else Inr (Some graph)))"

section \<open>Stage 5: metric normalization (stage5\_metric\_normalization.py)\<close>

definition REFERENCE_BUILDING_WIDTH :: real where
  "REFERENCE_BUILDING_WIDTH = 12"

record NormalizationContext =
  image_width_px :: real
  image_height_px :: real
  detected_width_px :: real
  detected_height_px :: real
  scale_factor :: real
  target_width_m :: real

text \<open>\<open>min\<close> and \<open>max\<close> of a list that the caller has found non-empty.\<close>

fun py_min :: "real list \<Rightarrow> real" where
  "py_min [] = 0"
| "py_min (x # xs) = fold min xs x"

fun py_max :: "real list \<Rightarrow> real" where
  "py_max [] = 0"
| "py_max (x # xs) = fold max xs x"

definition estimate_building_width :: "real \<Rightarrow> WallTopologyGraph \<Rightarrow> real" where
  "estimate_building_width image_width g =
     (if vertices g = [] then image_width
      else (let xs = map (\<lambda>(k, v). fst (position_v v)) (vertices g);
                ys = map (\<lambda>(k, v). snd (position_v v)) (vertices g);
                x_min = py_min xs; x_max = py_max xs;
                y_min = py_min ys; y_max = py_max ys;
                width = x_max - x_min;
                height = y_max - y_min
            in max width height))"

definition estimate_building_height :: "real \<Rightarrow> WallTopologyGraph \<Rightarrow> real" where
  "estimate_building_height image_height g =
     (if vertices g = [] then image_height
      else (let ys = map (\<lambda>(k, v). snd (position_v v)) (vertices g)
            in py_max ys - py_min ys))"

text \<open>\<open>_validate_context\<close>: only the range of the scale factor decides; the rest are warnings.\<close>

definition validate_context :: "NormalizationContext \<Rightarrow> bool" where
  "validate_context c = (\<not> (scale_factor c < 1 / 10 \<or> scale_factor c > 100))"

text \<open>
  \<open>_transform_wall_graph\<close>. First loop: a new vertex for every old one, in dictionary
  order, and \<open>vertex_mapping\<close> from the old id to the new vertex (its id here). Second loop:
  every old edge again between the mapped vertices, with length and points divided by
  the scale factor; \<open>vertex_mapping[...]\<close> raises KeyError for an unknown id.
\<close>

fun transform_vertices ::
  "real \<Rightarrow> WallTopologyGraph \<times> (nat \<times> nat) list \<Rightarrow> (nat \<times> WallVertex) list \<Rightarrow> WallTopologyGraph \<times> (nat \<times> nat) list" where
  "transform_vertices sf (new_graph, vertex_mapping) [] = (new_graph, vertex_mapping)"
| "transform_vertices sf (new_graph, vertex_mapping) ((old_id, old_vertex) # rest) =
     (let x_m = fst (position_v old_vertex) / sf;
          y_m = snd (position_v old_vertex) / sf;
          (new_graph', new_vertex) =
             add_vertex new_graph (x_m, y_m) (is_junction old_vertex) (is_corner old_vertex)
      in transform_vertices sf
           (new_graph', AList.update old_id (id_v new_vertex) vertex_mapping) rest)"

fun transform_edges ::
  "real \<Rightarrow> (nat \<times> nat) list \<Rightarrow> WallTopologyGraph \<Rightarrow> (nat \<times> WallEdge) list \<Rightarrow> py_error + WallTopologyGraph" where
  "transform_edges sf vertex_mapping new_graph [] = Inr new_graph"
| "transform_edges sf vertex_mapping new_graph ((k, old_edge) # rest) =
     (case map_of vertex_mapping (vertex_a old_edge) of
        None \<Rightarrow> Inl KeyError
      | Some new_va \<Rightarrow>
          (case map_of vertex_mapping (vertex_b old_edge) of
             None \<Rightarrow> Inl KeyError
           | Some new_vb \<Rightarrow>
               (let new_length_m = length_px old_edge / sf;
                    new_points = map (\<lambda>p. (fst p / sf, snd p / sf)) (points old_edge)
                in case add_edge new_graph new_va new_vb new_length_m new_points of
                     Inl e \<Rightarrow> Inl e
                   | Inr (new_graph', edge) \<Rightarrow> transform_edges sf vertex_mapping new_graph' rest)))"

definition transform_wall_graph :: "real \<Rightarrow> WallTopologyGraph \<Rightarrow> py_error + WallTopologyGraph" where
  "transform_wall_graph sf g =
     (case transform_vertices sf (WallTopologyGraph_init, []) (vertices g) of
        (new_graph, vertex_mapping) \<Rightarrow> transform_edges sf vertex_mapping new_graph (edges g))"

text \<open>
  \<open>MetricNormalizer.normalize\<close> for a wall graph and a room set that are present. The
  result is \<open>None\<close> where the source returns \<open>(False, {}, None, None)\<close>, and otherwise the
  context and the normalized wall graph. The normalized room set, the fourth component
  of the source's result, is left out.
\<close>

definition normalize :: "real \<times> real \<Rightarrow> WallTopologyGraph \<Rightarrow> py_error + (NormalizationContext \<times> WallTopologyGraph) option" where
  "normalize image_shape g =
     (case image_shape of (image_height, image_width) \<Rightarrow>
       (let detected_width = estimate_building_width image_width g;
            detected_height = estimate_building_height image_height g
        in if detected_width \<le> 0 \<or> detected_height \<le> 0 then Inr None
           else (let context = \<lparr>image_width_px = image_width, image_height_px = image_height,
                                 detected_width_px = detected_width,
                                 detected_height_px = detected_height,
                                 scale_factor = detected_width / REFERENCE_BUILDING_WIDTH,
                                 target_width_m = REFERENCE_BUILDING_WIDTH\<rparr>
                 in if \<not> validate_context context then Inr None
                    else (case transform_wall_graph (scale_factor context) g of
                            Inl e \<Rightarrow> Inl e
                          | Inr normalized \<Rightarrow> Inr (Some (context, normalized))))))"

text \<open>
  The vertex bounding box of a graph (width, height), as the two estimates compute it.
\<close>

definition bbox_width :: "WallTopologyGraph \<Rightarrow> real" where
  "bbox_width g = py_max (map (\<lambda>(k, v). fst (position_v v)) (vertices g))
                  - py_min (map (\<lambda>(k, v). fst (position_v v)) (vertices g))"

definition bbox_height :: "WallTopologyGraph \<Rightarrow> real" where
  "bbox_height g = py_max (map (\<lambda>(k, v). snd (position_v v)) (vertices g))
                   - py_min (map (\<lambda>(k, v). snd (position_v v)) (vertices g))"

text \<open>
  Scenario D: corners of a 1000 by 800 pixel box and a vertex at (500, 400). And a
  graph whose box is 2000 by 800 pixels.
\<close>

definition scenario_d_graph :: WallTopologyGraph where
  "scenario_d_graph =
     \<lparr>vertices = [(0, \<lparr>id_v = 0, position_v = (0, 0), is_junction = False, is_corner = True, degree = 1\<rparr>),
                  (1, \<lparr>id_v = 1, position_v = (1000, 800), is_junction = False, is_corner = True, degree = 1\<rparr>),
                  (2, \<lparr>id_v = 2, position_v = (500, 400), is_junction = False, is_corner = False, degree = 2\<rparr>)],
      edges = [(0, \<lparr>id_e = 0, vertex_a = 0, vertex_b = 2, length_px = 640, points = [(0, 0), (500, 400)]\<rparr>),
               (1, \<lparr>id_e = 1, vertex_a = 2, vertex_b = 1, length_px = 640, points = [(500, 400), (1000, 800)]\<rparr>)],
      vertex_counter = 3, edge_counter = 2,
      adjacency = [(0, [2]), (1, [2]), (2, [1, 0])]\<rparr>"

definition wide_graph :: WallTopologyGraph where
  "wide_graph =
     \<lparr>vertices = [(0, \<lparr>id_v = 0, position_v = (0, 0), is_junction = False, is_corner = True, degree = 1\<rparr>),
                  (1, \<lparr>id_v = 1, position_v = (2000, 800), is_junction = False, is_corner = True, degree = 1\<rparr>)],
      edges = [(0, \<lparr>id_e = 0, vertex_a = 0, vertex_b = 1, length_px = 2154, points = [(0, 0), (2000, 800)]\<rparr>)],
      vertex_counter = 2, edge_counter = 1,
      adjacency = [(0, [1]), (1, [0])]\<rparr>"

text \<open>One straight wall: two end points 40 pixels apart on a horizontal line, joined by an edge.\<close>

definition line_graph :: WallTopologyGraph where
  "line_graph =
     \<lparr>vertices = [(0, \<lparr>id_v = 0, position_v = (0, 0), is_junction = False, is_corner = False, degree = 1\<rparr>),
                  (1, \<lparr>id_v = 1, position_v = (40, 0), is_junction = False, is_corner = False, degree = 1\<rparr>)],
      edges = [(0, \<lparr>id_e = 0, vertex_a = 0, vertex_b = 1, length_px = 40, points = [(0, 0), (40, 0)]\<rparr>)],
      vertex_counter = 2, edge_counter = 1,
      adjacency = [(0, [1]), (1, [0])]\<rparr>"

section \<open>Stage 6: the cutaway mesh (stage6\_3d\_construction.py)\<close>

definition WALL_THICKNESS :: real where
  "WALL_THICKNESS = 22 / 100"

definition WALL_HEIGHT :: real where
  "WALL_HEIGHT = 13 / 10"

definition FLOOR_SLAB_THICKNESS :: real where
  "FLOOR_SLAB_THICKNESS = 12 / 100"

text \<open>
  \<open>np.round(position, decimals=6)\<close>: scale by 10^6, round to the nearest integer with
  ties to the even one, scale back. The rounded position is the deduplication key.
\<close>

definition round_half_even :: "real \<Rightarrow> int" where
  "round_half_even t =
     (let f = \<lfloor>t\<rfloor>
      in if t - of_int f < 1 / 2 then f
         else if t - of_int f > 1 / 2 then f + 1
         else if even f then f else f + 1)"

definition round6 :: "real \<Rightarrow> real" where
  "round6 x = of_int (round_half_even (x * 1000000)) / 1000000"

definition position_key :: "vec3 \<Rightarrow> vec3" where
  "position_key p = (case p of (x, y, z) \<Rightarrow> (round6 x, round6 y, round6 z))"

definition Mesh_init :: "string \<Rightarrow> real Mesh" where
  "Mesh_init nm = \<lparr>name = nm, vertices_m = [], faces = [], vertex_hash_map = Map.empty\<rparr>"

text \<open>\<open>Mesh.add_vertex\<close> (the default normal of a new vertex is (0, 0, 1)) and \<open>Mesh.add_face\<close>.\<close>

definition add_vertex_m :: "real Mesh \<Rightarrow> vec3 \<Rightarrow> vec3 option \<Rightarrow> real Mesh \<times> nat" where
  "add_vertex_m m pos nrm =
     (let key = position_key pos
      in case vertex_hash_map m key of
           Some idx \<Rightarrow> (m, idx)
         | None \<Rightarrow>
             (let idx = length (vertices_m m);
                  vertex = \<lparr>position = pos, normal = (case nrm of None \<Rightarrow> (0, 0, 1) | Some n \<Rightarrow> n)\<rparr>
              in (m\<lparr>vertices_m := vertices_m m @ [vertex],
                    vertex_hash_map := (vertex_hash_map m)(key \<mapsto> idx)\<rparr>, idx)))"

definition add_face :: "real Mesh \<Rightarrow> nat \<Rightarrow> nat \<Rightarrow> nat \<Rightarrow> vec3 option \<Rightarrow> real Mesh \<times> nat" where
  "add_face m vi0 vi1 vi2 nrm =
     (m\<lparr>faces := faces m @ [\<lparr>vertex_indices = (vi0, vi1, vi2), face_normal = nrm\<rparr>]\<rparr>,
      length (faces m))"

text \<open>
  A run of \<open>mesh.add_vertex(p)\<close> calls in the order of the list, giving the indices, and a
  run of \<open>mesh.add_face(a, b, c)\<close> calls. Floor slab and wall both add four bottom
  corners, four top corners and then the same twelve triangles (bottom, top, four sides).
\<close>

fun add_vertices_m :: "real Mesh \<Rightarrow> vec3 list \<Rightarrow> real Mesh \<times> nat list" where
  "add_vertices_m m [] = (m, [])"
| "add_vertices_m m (p # ps) =
     (case add_vertex_m m p None of (m1, i) \<Rightarrow>
        (case add_vertices_m m1 ps of (m2, is) \<Rightarrow> (m2, i # is)))"

fun add_faces :: "real Mesh \<Rightarrow> (nat \<times> nat \<times> nat) list \<Rightarrow> real Mesh" where
  "add_faces m [] = m"
| "add_faces m ((a, b, c) # fs) = add_faces (fst (add_face m a b c None)) fs"

fun box_faces :: "nat list \<Rightarrow> nat list \<Rightarrow> (nat \<times> nat \<times> nat) list" where
  "box_faces [b0, b1, b2, b3] [t0, t1, t2, t3] =
     [(b0, b2, b1), (b0, b3, b2),
      (t0, t1, t2), (t0, t2, t3),
      (b0, b1, t0), (b1, t1, t0),
      (b1, b2, t1), (b2, t2, t1),
      (b2, b3, t2), (b3, t3, t2),
      (b3, b0, t3), (b0, t0, t3)]"
| "box_faces _ _ = []"

definition add_box :: "real Mesh \<Rightarrow> vec3 list \<Rightarrow> vec3 list \<Rightarrow> real Mesh" where
  "add_box m bottom_pts top_pts =
     (case add_vertices_m m bottom_pts of (m1, vi_bottom) \<Rightarrow>
        (case add_vertices_m m1 top_pts of (m2, vi_top) \<Rightarrow>
           add_faces m2 (box_faces vi_bottom vi_top)))"

text \<open>\<open>WallExtrusion.extrude_wall_edge\<close>: nothing for an edge shorter than 10^-6.\<close>

definition extrude_wall_edge :: "real \<times> real \<Rightarrow> real \<times> real \<Rightarrow> real \<Rightarrow> real \<Rightarrow> real Mesh \<Rightarrow> real Mesh" where
  "extrude_wall_edge p_start p_end thickness height mesh =
     (let wall_vec = (fst p_end - fst p_start, snd p_end - snd p_start);
          wall_len = sqrt ((fst wall_vec)\<^sup>2 + (snd wall_vec)\<^sup>2)
      in if wall_len < 1 / 1000000 then mesh
         else (let wall_dir = (fst wall_vec / wall_len, snd wall_vec / wall_len);
                   perp_dir = (- snd wall_dir, fst wall_dir);
                   half_thick = thickness / 2;
                   perp_offset = (fst perp_dir * half_thick, snd perp_dir * half_thick);
                   p0 = (fst p_start - fst perp_offset, snd p_start - snd perp_offset);
                   p1 = (fst p_start + fst perp_offset, snd p_start + snd perp_offset);
                   p2 = (fst p_end + fst perp_offset, snd p_end + snd perp_offset);
                   p3 = (fst p_end - fst perp_offset, snd p_end - snd perp_offset)
               in add_box mesh
                    (map (\<lambda>p. (fst p, snd p, 0)) [p0, p1, p2, p3])
                    (map (\<lambda>p. (fst p, snd p, height)) [p0, p1, p2, p3])))"

text \<open>\<open>CutawayBuilder._build_floor_slab\<close> for a wall graph that is present.\<close>

definition build_floor_slab :: "WallTopologyGraph \<Rightarrow> real Mesh \<Rightarrow> real Mesh" where
  "build_floor_slab g mesh =
     (if vertices g = [] then mesh
      else (let xs = map (\<lambda>(k, v). fst (position_v v)) (vertices g);
                ys = map (\<lambda>(k, v). snd (position_v v)) (vertices g);
                padding = 1 / 2;
                x_min = py_min xs - padding; x_max = py_max xs + padding;
                y_min = py_min ys - padding; y_max = py_max ys + padding;
                z_top = 0;
                z_bottom = - FLOOR_SLAB_THICKNESS
            in add_box mesh
                 [(x_min, y_min, z_bottom), (x_max, y_min, z_bottom),
                  (x_max, y_max, z_bottom), (x_min, y_max, z_bottom)]
                 [(x_min, y_min, z_top), (x_max, y_min, z_top),
                  (x_max, y_max, z_top), (x_min, y_max, z_top)]))"

text \<open>
  \<open>CutawayBuilder._build_walls\<close>: \<open>None\<close> without edges. The positions of an edge's two
  vertex objects are read in \<open>vertices\<close>; the model answers KeyError where an edge names
  a vertex the graph does not have, which the class invariant excludes.
\<close>

fun extrude_edges :: "WallTopologyGraph \<Rightarrow> real Mesh \<Rightarrow> (nat \<times> WallEdge) list \<Rightarrow> py_error + real Mesh" where
  "extrude_edges g mesh [] = Inr mesh"
| "extrude_edges g mesh ((k, edge) # rest) =
     (case map_of (vertices g) (vertex_a edge) of
        None \<Rightarrow> Inl KeyError
      | Some va \<Rightarrow>
          (case map_of (vertices g) (vertex_b edge) of
             None \<Rightarrow> Inl KeyError
           | Some vb \<Rightarrow>
               extrude_edges g
                 (extrude_wall_edge (position_v va) (position_v vb) WALL_THICKNESS WALL_HEIGHT mesh)
                 rest))"

definition build_walls :: "WallTopologyGraph \<Rightarrow> real Mesh \<Rightarrow> py_error + real Mesh option" where
  "build_walls g mesh =
     (if edges g = [] then Inr None
      else (case extrude_edges g mesh (edges g) of Inl e \<Rightarrow> Inl e | Inr m \<Rightarrow> Inr (Some m)))"

text \<open>
  \<open>Mesh.recalculate_normals\<close>. Everything done for one face stands inside a \<open>try\<close>
  whose handler goes on with the next face: a face that names a missing vertex is
  skipped, and so is a face for which the library call
  \<open>np.cross(edge1, edge2, dtype=np.float32)\<close> raises. That call is the parameter
  \<open>np_cross\<close> (\<open>None\<close>: it raised); \<open>cross3\<close> is the cross product it is meant to
  return. \<open>vertex_normals\<close> is the list of accumulated normals by index.
\<close>

definition cross3 :: "vec3 \<Rightarrow> vec3 \<Rightarrow> vec3" where
  "cross3 a b = (case a of (a1, a2, a3) \<Rightarrow> case b of (b1, b2, b3) \<Rightarrow>
                   (a2 * b3 - a3 * b2, a3 * b1 - a1 * b3, a1 * b2 - a2 * b1))"

definition dot3 :: "vec3 \<Rightarrow> vec3 \<Rightarrow> real" where
  "dot3 a b = (case a of (a1, a2, a3) \<Rightarrow> case b of (b1, b2, b3) \<Rightarrow> a1 * b1 + a2 * b2 + a3 * b3)"

definition sub3 :: "vec3 \<Rightarrow> vec3 \<Rightarrow> vec3" where
  "sub3 a b = (case a of (a1, a2, a3) \<Rightarrow> case b of (b1, b2, b3) \<Rightarrow> (a1 - b1, a2 - b2, a3 - b3))"

definition add3 :: "vec3 \<Rightarrow> vec3 \<Rightarrow> vec3" where
  "add3 a b = (case a of (a1, a2, a3) \<Rightarrow> case b of (b1, b2, b3) \<Rightarrow> (a1 + b1, a2 + b2, a3 + b3))"

definition div3 :: "vec3 \<Rightarrow> real \<Rightarrow> vec3" where
  "div3 a c = (case a of (a1, a2, a3) \<Rightarrow> (a1 / c, a2 / c, a3 / c))"

fun accumulate_normals ::
  "(vec3 \<Rightarrow> vec3 \<Rightarrow> vec3 option) \<Rightarrow> real Vertex list \<Rightarrow> real Face list \<Rightarrow> vec3 list \<Rightarrow> real Face list \<times> vec3 list" where
  "accumulate_normals np_cross vs [] vertex_normals = ([], vertex_normals)"
| "accumulate_normals np_cross vs (face # rest) vertex_normals =
     (case vertex_indices face of (vi0, vi1, vi2) \<Rightarrow>
        if vi0 < length vs \<and> vi1 < length vs \<and> vi2 < length vs
        then (let v0 = position (vs ! vi0); v1 = position (vs ! vi1); v2 = position (vs ! vi2);
                  edge1 = sub3 v1 v0; edge2 = sub3 v2 v0
              in case np_cross edge1 edge2 of
                   None \<Rightarrow>
                     (case accumulate_normals np_cross vs rest vertex_normals of
                        (fs, vn) \<Rightarrow> (face # fs, vn))
                 | Some fnormal \<Rightarrow>
                     (let norm_sq = dot3 fnormal fnormal
                      in if norm_sq > 1 / 10 ^ 12
                         then (let fnormal' = div3 fnormal (sqrt norm_sq);
                                   vn0 = vertex_normals[vi0 := add3 (vertex_normals ! vi0) fnormal'];
                                   vn1 = vn0[vi1 := add3 (vn0 ! vi1) fnormal'];
                                   vn2 = vn1[vi2 := add3 (vn1 ! vi2) fnormal']
                               in case accumulate_normals np_cross vs rest vn2 of
                                    (fs, vn) \<Rightarrow> (face\<lparr>face_normal := Some fnormal'\<rparr> # fs, vn))
                         else (case accumulate_normals np_cross vs rest vertex_normals of
                                 (fs, vn) \<Rightarrow> (face # fs, vn))))
        else (case accumulate_normals np_cross vs rest vertex_normals of
                (fs, vn) \<Rightarrow> (face # fs, vn)))"

definition recalculate_normals :: "(vec3 \<Rightarrow> vec3 \<Rightarrow> vec3 option) \<Rightarrow> real Mesh \<Rightarrow> real Mesh" where
  "recalculate_normals np_cross m =
     (if faces m = [] then m
      else (case accumulate_normals np_cross (vertices_m m) (faces m)
                   (replicate (length (vertices_m m)) (0, 0, 0)) of
              (fs, vertex_normals) \<Rightarrow>
                m\<lparr>faces := fs,
                  vertices_m :=
                    map (\<lambda>(v, n). if dot3 n n > 1 / 10 ^ 12
                                    then v\<lparr>normal := div3 n (sqrt (dot3 n n))\<rparr> else v)
                      (zip (vertices_m m) vertex_normals)\<rparr>))"

text \<open>
  \<open>CutawayBuilder.build\<close> for a wall graph that is present: \<open>None\<close> when there are no
  wall edges and when an exception was caught. The manifold check that follows the
  normals only writes to the log.
\<close>

definition build :: "(vec3 \<Rightarrow> vec3 \<Rightarrow> vec3 option) \<Rightarrow> WallTopologyGraph \<Rightarrow> real Mesh option" where
  "build np_cross g =
     (let combined_mesh = Mesh_init ''cutaway_model'';
          floor_mesh = build_floor_slab g combined_mesh
      in case build_walls g floor_mesh of
           Inl e \<Rightarrow> None
         | Inr None \<Rightarrow> None
         | Inr (Some wall_mesh) \<Rightarrow> Some (recalculate_normals np_cross wall_mesh))"

text \<open>A graph with two vertices and no edge.\<close>

definition edgeless_graph :: WallTopologyGraph where
  "edgeless_graph =
     \<lparr>vertices = [(0, \<lparr>id_v = 0, position_v = (0, 0), is_junction = False, is_corner = False, degree = 0\<rparr>),
                  (1, \<lparr>id_v = 1, position_v = (3, 4), is_junction = False, is_corner = False, degree = 0\<rparr>)],
      edges = [], vertex_counter = 2, edge_counter = 0,
      adjacency = [(0, []), (1, [])]\<rparr>"

section \<open>Stage 4: room detection (stage4\_room\_detection.py)\<close>


record Room =
  id_r :: nat
  pixels :: "(nat \<times> nat) list"
  centroid :: "real \<times> real"
  area_px :: nat
  perimeter_px :: nat
  bounds :: "nat \<times> nat \<times> nat \<times> nat"

record RoomSet =
  rooms :: "(nat \<times> Room) list"
  room_counter :: nat
  height :: nat
  width :: nat





























chapter \<open>Verified properties\<close>

section \<open>Validator: the numerical-validity check\<close>

lemma normals_loop_frame:
  "passed (normals_loop r i vs) = passed r \<and> checks (normals_loop r i vs) = checks r
   \<and> errors (normals_loop r i vs) = errors r"
  by (induction vs arbitrary: i) (simp_all add: add_warning_def)

lemma normals_loop_warnings:
  "warnings (normals_loop r i vs) =
     warnings r @ (if filter invalid_normal vs = [] then []
                   else [''Vertex '' @ str_nat (i + length (takeWhile (\<lambda>v. \<not> invalid_normal v) vs))
                         @ '' has invalid normal''])"
  by (induction vs arbitrary: i) (simp_all add: add_warning_def)

text \<open>
  C10. For every mesh and every prior validation result, \<open>_check_numerical_validity\<close>
  appends the check "Numerical Validity" with passed = True, leaves the result's
  \<open>passed\<close> flag and its error list as they were, and at most appends one warning (for
  the first vertex whose normal holds a NaN or an infinity).
\<close>

theorem numerical_validity_always_passes:
  "checks (check_numerical_validity r m) =
     checks r @ [(''Numerical Validity'', True, ''No critical numerical errors'')]
   \<and> passed (check_numerical_validity r m) = passed r
   \<and> errors (check_numerical_validity r m) = errors r
   \<and> warnings (check_numerical_validity r m) =
       warnings r @ (if filter invalid_normal (vertices_m m) = [] then []
                     else [''Vertex '' @ str_nat (length (takeWhile (\<lambda>v. \<not> invalid_normal v) (vertices_m m)))
                           @ '' has invalid normal''])"
  by (simp add: check_numerical_validity_def add_check_def normals_loop_frame normals_loop_warnings)

text \<open>
  The same at a concrete mesh whose second vertex has the normal (NaN, 0, +inf): the
  result still has passed = True and an empty error list.
\<close>

theorem numerical_validity_always_passes_witness:
  "check_numerical_validity ValidationResult_init nan_mesh =
     \<lparr>passed = True,
      checks = [(''Numerical Validity'', True, ''No critical numerical errors'')],
      warnings = [''Vertex 1 has invalid normal''], errors = []\<rparr>"
proof -
  have nonempty: "filter invalid_normal (vertices_m nan_mesh) \<noteq> []"
    by (simp add: nan_mesh_def invalid_normal_def any3_def)
  have idx: "length (takeWhile (\<lambda>v. \<not> invalid_normal v) (vertices_m nan_mesh)) = 1"
    by (simp add: nan_mesh_def invalid_normal_def any3_def)
  have one: "str_nat 1 = ''1''"
    by (simp add: str_nat.simps)
  from numerical_validity_always_passes [of ValidationResult_init nan_mesh] nonempty idx one
  show ?thesis
    by (simp add: ValidationResult_init_def)
qed

section \<open>Exporter: layout of the written container\<close>

lemma length_le32: "length (le32 n) = 4"
  by (simp add: le32_def)

lemma unat_byte: "unat (of_nat n :: byte) = n mod 256"
  by (simp add: unat_of_nat)

lemma u32_le_le32:
  assumes "n < 2 ^ 32"
  shows "u32_le (le32 n) = n"
proof -
  define a where "a = n div 256"
  define b where "b = a div 256"
  define c where "c = b div 256"
  have n: "n = n mod 256 + 256 * a" by (simp add: a_def)
  have a: "a = a mod 256 + 256 * b" by (simp add: b_def)
  have b: "b = b mod 256 + 256 * c" by (simp add: c_def)
  have d16: "n div 2 ^ 16 = b" by (simp add: a_def b_def div_mult2_eq)
  have d24: "n div 2 ^ 24 = c" by (simp add: a_def b_def c_def div_mult2_eq)
  have "c < 256" using assms by (simp add: d24 [symmetric] less_mult_imp_div_less)
  then have c: "c mod 256 = c" by simp
  have "u32_le (le32 n) = n mod 256 + 256 * (a mod 256) + 65536 * (b mod 256) + 16777216 * c"
    unfolding le32_def u32_le.simps unat_byte d16 d24 c by (simp add: a_def)
  also have "\<dots> = n" using n a b by linarith
  finally show ?thesis .
qed

lemma struct_pack_le2:
  "struct_pack_le [a, b] = Inr h \<Longrightarrow> a < 2 ^ 32 \<and> b < 2 ^ 32 \<and> h = le32 a @ le32 b"
  by (simp split: if_splits)

lemma struct_pack_le3:
  "struct_pack_le [a, b, c] = Inr h \<Longrightarrow>
     a < 2 ^ 32 \<and> b < 2 ^ 32 \<and> c < 2 ^ 32 \<and> h = le32 a @ le32 b @ le32 c"
  by (simp split: if_splits)

lemma le32_magic: "le32 GLTF_MAGIC = [0x67, 0x6C, 0x54, 0x46]"
  by (simp add: le32_def GLTF_MAGIC_def)

lemma pad4: "(n + (4 - n mod 4) mod 4) mod 4 = (0::nat)"
proof -
  have r: "n mod 4 < 4" by simp
  have step: "(n + k) mod 4 = (n mod 4 + k) mod 4" for k
    by (simp add: mod_add_left_eq)
  from r consider "n mod 4 = 0" | "n mod 4 = 1" | "n mod 4 = 2" | "n mod 4 = 3"
    by linarith
  then show ?thesis
  proof cases
    case 1 then show ?thesis using step [of 0] by simp
  next
    case 2 then show ?thesis using step [of 3] by simp
  next
    case 3 then show ?thesis using step [of 2] by simp
  next
    case 4 then show ?thesis using step [of 1] by simp
  qed
qed

lemma write_glb_file_Inr:
  assumes "write_glb_file io_ok js bf = Inr f"
  shows "\<exists>jh bh gh.
     struct_pack_le [length (js @ replicate ((4 - length js mod 4) mod 4) (0x20 :: byte)), 0x4E4F534A] = Inr jh
   \<and> struct_pack_le [length (bf @ replicate ((4 - length bf mod 4) mod 4) (0x00 :: byte)), 0x004E4942] = Inr bh
   \<and> struct_pack_le [GLTF_MAGIC, GLTF_VERSION,
         12 + length (jh @ js @ replicate ((4 - length js mod 4) mod 4) (0x20 :: byte))
            + length (bh @ bf @ replicate ((4 - length bf mod 4) mod 4) (0x00 :: byte))] = Inr gh
   \<and> f = gh @ (jh @ js @ replicate ((4 - length js mod 4) mod 4) 0x20)
            @ (bh @ bf @ replicate ((4 - length bf mod 4) mod 4) 0x00)"
proof -
  let ?jd = "js @ replicate ((4 - length js mod 4) mod 4) (0x20 :: byte)"
  let ?bd = "bf @ replicate ((4 - length bf mod 4) mod 4) (0x00 :: byte)"
  show ?thesis
  proof (cases "struct_pack_le [length ?jd, 0x4E4F534A]")
    case (Inl e)
    with assms show ?thesis
      unfolding write_glb_file_def Let_def by (simp only: sum.case sum.distinct)
  next
    case jh: (Inr jh)
    show ?thesis
    proof (cases "struct_pack_le [length ?bd, 0x004E4942]")
      case (Inl e)
      with assms jh show ?thesis
        unfolding write_glb_file_def Let_def by (simp only: sum.case sum.distinct)
    next
      case bh: (Inr bh)
      show ?thesis
      proof (cases "struct_pack_le [GLTF_MAGIC, GLTF_VERSION, 12 + length (jh @ ?jd) + length (bh @ ?bd)]")
        case (Inl e)
        with assms jh bh show ?thesis
          unfolding write_glb_file_def Let_def by (simp only: sum.case sum.distinct)
      next
        case gh: (Inr gh)
        from assms jh bh gh have "(if io_ok then Inr (gh @ (jh @ ?jd) @ (bh @ ?bd)) else Inl IOError) = Inr f"
          unfolding write_glb_file_def Let_def by (simp only: sum.case)
        then have "f = gh @ (jh @ ?jd) @ (bh @ ?bd)"
          by (cases io_ok) (simp_all only: if_True if_False sum.inject sum.distinct)
        with jh bh gh show ?thesis by blast
      qed
    qed
  qed
qed

text \<open>
  C8. Every file the exporter writes is the 12-byte header (magic, version 2, total
  length, each an unsigned 32-bit little-endian field), then the JSON chunk (length, the
  tag "JSON", the JSON text padded with spaces to a multiple of four bytes), then the
  binary chunk (length, the tag "BIN", the buffer padded with zero bytes to a multiple of
  four). The declared total length is the file's length, 12 plus the sizes of both
  chunks; the first four bytes are "glTF" and the version field reads 2.
\<close>

theorem glb_file_layout:
  assumes "write_glb_file io_ok gltf_json_bytes buffer_data = Inr f"
  shows "f = le32 GLTF_MAGIC @ le32 GLTF_VERSION @ le32 (length f)
             @ (le32 (length gltf_json_bytes + (4 - length gltf_json_bytes mod 4) mod 4)
                @ le32 0x4E4F534A
                @ gltf_json_bytes @ replicate ((4 - length gltf_json_bytes mod 4) mod 4) 0x20)
             @ (le32 (length buffer_data + (4 - length buffer_data mod 4) mod 4)
                @ le32 0x004E4942
                @ buffer_data @ replicate ((4 - length buffer_data mod 4) mod 4) 0x00)
       \<and> (length gltf_json_bytes + (4 - length gltf_json_bytes mod 4) mod 4) mod 4 = 0
       \<and> (length buffer_data + (4 - length buffer_data mod 4) mod 4) mod 4 = 0
       \<and> length f = 12 + (8 + (length gltf_json_bytes + (4 - length gltf_json_bytes mod 4) mod 4))
                        + (8 + (length buffer_data + (4 - length buffer_data mod 4) mod 4))
       \<and> take 4 f = [0x67, 0x6C, 0x54, 0x46]
       \<and> u32_le (take 4 (drop 4 f)) = 2
       \<and> u32_le (take 4 (drop 8 f)) = length f"
proof -
  let ?jp = "(4 - length gltf_json_bytes mod 4) mod 4"
  let ?bp = "(4 - length buffer_data mod 4) mod 4"
  let ?jd = "gltf_json_bytes @ replicate ?jp (0x20 :: byte)"
  let ?bd = "buffer_data @ replicate ?bp (0x00 :: byte)"
  from write_glb_file_Inr [OF assms] obtain jh bh gh where
    jh: "struct_pack_le [length ?jd, 0x4E4F534A] = Inr jh" and
    bh: "struct_pack_le [length ?bd, 0x004E4942] = Inr bh" and
    gh: "struct_pack_le [GLTF_MAGIC, GLTF_VERSION, 12 + length (jh @ ?jd) + length (bh @ ?bd)] = Inr gh" and
    f: "f = gh @ (jh @ ?jd) @ (bh @ ?bd)"
    by blast
  have j: "jh = le32 (length ?jd) @ le32 0x4E4F534A"
    using struct_pack_le2 [OF jh] by blast
  have b: "bh = le32 (length ?bd) @ le32 0x004E4942"
    using struct_pack_le2 [OF bh] by blast
  have g: "gh = le32 GLTF_MAGIC @ le32 GLTF_VERSION @ le32 (12 + length (jh @ ?jd) + length (bh @ ?bd))"
    and small: "12 + length (jh @ ?jd) + length (bh @ ?bd) < 2 ^ 32"
    using struct_pack_le3 [OF gh] by blast+
  have lgh: "length gh = 12"
    by (subst g) (simp add: length_le32)
  have len: "length f = 12 + length (jh @ ?jd) + length (bh @ ?bd)"
    by (subst f) (simp add: lgh)
  have lj: "length jh = 8" by (subst j) (simp add: length_le32)
  have lb: "length bh = 8" by (subst b) (simp add: length_le32)
  have c4: "length f = 12 + (8 + (length gltf_json_bytes + ?jp)) + (8 + (length buffer_data + ?bp))"
    using len lj lb by simp
  have g': "gh = le32 GLTF_MAGIC @ le32 GLTF_VERSION @ le32 (length f)"
    using g len by simp
  have c1: "f = le32 GLTF_MAGIC @ le32 GLTF_VERSION @ le32 (length f)
             @ (le32 (length gltf_json_bytes + ?jp) @ le32 0x4E4F534A @ ?jd)
             @ (le32 (length buffer_data + ?bp) @ le32 0x004E4942 @ ?bd)"
    by (subst f, subst g', subst j, subst b) simp
  have t4: "take 4 f = le32 GLTF_MAGIC"
    by (subst c1) (simp add: length_le32)
  have c5: "take 4 f = [0x67, 0x6C, 0x54, 0x46]"
    using t4 le32_magic by simp
  have "take 4 (drop 4 f) = le32 GLTF_VERSION"
    by (subst c1) (simp add: length_le32)
  then have c6: "u32_le (take 4 (drop 4 f)) = 2"
    by (simp add: u32_le_le32 GLTF_VERSION_def)
  have "take 4 (drop 8 f) = le32 (length f)"
    by (subst c1) (simp add: length_le32)
  moreover have "length f < 2 ^ 32"
    by (subst len) (rule small)
  ultimately have c7: "u32_le (take 4 (drop 8 f)) = length f"
    by (simp only: u32_le_le32)
  show ?thesis
    by (intro conjI) (rule c1 pad4 c4 c5 c6 c7)+
qed

lemma replicate_2: "replicate 2 x = [x, x]"
  by (simp add: numeral_2_eq_2)

lemma replicate_3: "replicate 3 x = [x, x, x]"
  by (simp add: numeral_3_eq_3)

lemma le32_examples:
  "le32 4 = [0x04, 0x00, 0x00, 0x00]"
  "le32 8 = [0x08, 0x00, 0x00, 0x00]"
  "le32 40 = [0x28, 0x00, 0x00, 0x00]"
  "le32 GLTF_VERSION = [0x02, 0x00, 0x00, 0x00]"
  "le32 0x4E4F534A = [0x4A, 0x53, 0x4F, 0x4E]"
  "le32 0x004E4942 = [0x42, 0x49, 0x4E, 0x00]"
  by (simp_all add: le32_def GLTF_VERSION_def)

lemma struct_pack_le_small2:
  "a < 2 ^ 32 \<Longrightarrow> b < 2 ^ 32 \<Longrightarrow> struct_pack_le [a, b] = Inr (le32 a @ le32 b)"
  by simp

lemma struct_pack_le_small3:
  "a < 2 ^ 32 \<Longrightarrow> b < 2 ^ 32 \<Longrightarrow> c < 2 ^ 32 \<Longrightarrow>
   struct_pack_le [a, b, c] = Inr (le32 a @ le32 b @ le32 c)"
  by simp

lemma example_glb_written:
  "write_glb_file True [0x7B, 0x7D] [0x01, 0x02, 0x03, 0x04, 0x05] = Inr example_glb"
proof -
  have jp: "(4 - length [0x7B, 0x7D :: byte] mod 4) mod 4 = 2"
    by simp
  have bp: "(4 - length [0x01, 0x02, 0x03, 0x04, 0x05 :: byte] mod 4) mod 4 = 3"
    by simp
  have jh: "struct_pack_le [length ([0x7B, 0x7D :: byte] @ replicate 2 0x20), 0x4E4F534A]
              = Inr (le32 4 @ le32 0x4E4F534A)"
  proof -
    have "length ([0x7B, 0x7D :: byte] @ replicate 2 0x20) = 4"
      by (simp add: replicate_2)
    then show ?thesis
      by (simp only: struct_pack_le_small2 [of 4 "0x4E4F534A"]) simp
  qed
  have bh: "struct_pack_le [length ([0x01, 0x02, 0x03, 0x04, 0x05 :: byte] @ replicate 3 0x00), 0x004E4942]
              = Inr (le32 8 @ le32 0x004E4942)"
  proof -
    have "length ([0x01, 0x02, 0x03, 0x04, 0x05 :: byte] @ replicate 3 0x00) = 8"
      by (simp add: replicate_3)
    then show ?thesis
      by (simp only: struct_pack_le_small2 [of 8 "0x004E4942"]) simp
  qed
  have size: "12 + length ((le32 4 @ le32 0x4E4F534A) @ [0x7B, 0x7D :: byte] @ replicate 2 0x20)
                 + length ((le32 8 @ le32 0x004E4942) @ [0x01, 0x02, 0x03, 0x04, 0x05 :: byte] @ replicate 3 0x00)
              = 40"
    by (simp add: length_le32 replicate_2 replicate_3)
  have gh: "struct_pack_le [GLTF_MAGIC, GLTF_VERSION, 40]
              = Inr (le32 GLTF_MAGIC @ le32 GLTF_VERSION @ le32 40)"
    by (subst struct_pack_le_small3) (simp_all add: GLTF_MAGIC_def GLTF_VERSION_def)
  have "write_glb_file True [0x7B, 0x7D] [0x01, 0x02, 0x03, 0x04, 0x05]
          = Inr ((le32 GLTF_MAGIC @ le32 GLTF_VERSION @ le32 40)
                 @ ((le32 4 @ le32 0x4E4F534A) @ [0x7B, 0x7D] @ replicate 2 0x20)
                 @ ((le32 8 @ le32 0x004E4942) @ [0x01, 0x02, 0x03, 0x04, 0x05] @ replicate 3 0x00))"
    unfolding write_glb_file_def Let_def jp bp jh bh sum.case size gh
    by (simp only: if_True)
  also have "\<dots> = Inr example_glb"
    unfolding le32_examples le32_magic replicate_2 replicate_3 example_glb_def
    by simp
  finally show ?thesis .
qed

theorem glb_file_layout_witness:
  "write_glb_file True [0x7B, 0x7D] [0x01, 0x02, 0x03, 0x04, 0x05] = Inr example_glb
   \<and> length example_glb = 40
   \<and> take 4 example_glb = [0x67, 0x6C, 0x54, 0x46]
   \<and> u32_le (take 4 (drop 4 example_glb)) = 2
   \<and> u32_le (take 4 (drop 8 example_glb)) = length example_glb"
proof -
  note L = glb_file_layout [OF example_glb_written]
  note c5 = L [THEN conjunct2, THEN conjunct2, THEN conjunct2, THEN conjunct2, THEN conjunct1]
  note c6 = L [THEN conjunct2, THEN conjunct2, THEN conjunct2, THEN conjunct2, THEN conjunct2,
               THEN conjunct1]
  note c7 = L [THEN conjunct2, THEN conjunct2, THEN conjunct2, THEN conjunct2, THEN conjunct2,
               THEN conjunct2]
  have len: "length example_glb = 40"
    by (simp add: example_glb_def)
  show ?thesis
    by (intro conjI) (rule example_glb_written len c5 c6 c7)+
qed

section \<open>Openings: what cutting a rectangular hole does to a mesh\<close>

lemma pop_all_append:
  "pop_all xs (as @ bs) = (case pop_all xs as of Inl e \<Rightarrow> Inl e | Inr ys \<Rightarrow> pop_all ys bs)"
  by (induction as arbitrary: xs) (auto split: sum.splits)

lemma faces_to_remove_sorted:
  "faces_to_remove m box i fs = Inr idxs \<Longrightarrow> sorted idxs \<and> (\<forall>k \<in> set idxs. i \<le> k)"
proof (induction fs arbitrary: i idxs)
  case Nil
  then show ?case by simp
next
  case (Cons face rest)
  from Cons.prems obtain vs idxs' where
    vs: "face_positions m face = Inr vs" and
    rec: "faces_to_remove m box (Suc i) rest = Inr idxs'" and
    idxs: "idxs = (if in_cut_volume box vs then i # idxs' else idxs')"
    by (auto split: sum.splits)
  from Cons.IH [OF rec] have "sorted idxs'" and "\<forall>k \<in> set idxs'. Suc i \<le> k"
    by blast+
  then show ?case
    unfolding idxs by (auto intro: Suc_leD)
qed

lemma faces_to_remove_pop:
  "faces_to_remove m box (length pre) fs = Inr idxs \<Longrightarrow>
   pop_all (pre @ fs) (rev idxs) = Inr (pre @ filter (\<lambda>f. \<not> face_within m box f) fs)"
proof (induction fs arbitrary: pre idxs)
  case Nil
  then show ?case by simp
next
  case (Cons face rest)
  from Cons.prems obtain vs idxs' where
    vs: "face_positions m face = Inr vs" and
    rec: "faces_to_remove m box (Suc (length pre)) rest = Inr idxs'" and
    idxs: "idxs = (if in_cut_volume box vs then length pre # idxs' else idxs')"
    by (auto split: sum.splits)
  from rec have "faces_to_remove m box (length (pre @ [face])) rest = Inr idxs'"
    by simp
  from Cons.IH [OF this]
  have IH: "pop_all (pre @ face # rest) (rev idxs')
              = Inr (pre @ face # filter (\<lambda>f. \<not> face_within m box f) rest)"
    by simp
  show ?case
  proof (cases "in_cut_volume box vs")
    case True
    then have "face_within m box face"
      by (simp add: face_within_def vs)
    moreover have "pop_at (pre @ face # filter (\<lambda>f. \<not> face_within m box f) rest) (length pre)
                     = Inr (pre @ filter (\<lambda>f. \<not> face_within m box f) rest)"
      by (simp add: pop_at_def)
    ultimately show ?thesis
      using True IH by (simp add: idxs pop_all_append)
  next
    case False
    then have "\<not> face_within m box face"
      by (simp add: face_within_def vs)
    then show ?thesis
      using False IH by (simp add: idxs)
  qed
qed

lemma faces_to_remove_total:
  "list_all (\<lambda>f. case vertex_indices f of (a, b, c) \<Rightarrow>
              a < length (vertices_m m) \<and> b < length (vertices_m m) \<and> c < length (vertices_m m)) fs
   \<Longrightarrow> \<exists>idxs. faces_to_remove m box i fs = Inr idxs"
proof (induction fs arbitrary: i)
  case Nil
  then show ?case by simp
next
  case (Cons face rest)
  then obtain idxs where "faces_to_remove m box (Suc i) rest = Inr idxs"
    by auto
  moreover from Cons.prems have "\<exists>vs. face_positions m face = Inr vs"
    by (auto simp: face_positions_def vertex_at_def split: prod.splits)
  ultimately show ?case by auto
qed

lemma cut_rectangular_hole_Inr:
  assumes "cut_rectangular_hole m cx cy w h zb zt = Inr m'"
  shows "m' = m\<lparr>faces := filter (\<lambda>f. \<not> face_within m (cx - w / 2, cx + w / 2, cy - h / 2, cy + h / 2, zb, zt) f)
                              (faces m)\<rparr>"
proof -
  let ?box = "(cx - w / 2, cx + w / 2, cy - h / 2, cy + h / 2, zb, zt)"
  from assms obtain idxs fs where
    idxs: "faces_to_remove m ?box 0 (faces m) = Inr idxs" and
    fs: "pop_all (faces m) (rev (sort idxs)) = Inr fs" and
    m': "m' = m\<lparr>faces := fs\<rparr>"
    by (auto simp: cut_rectangular_hole_def Let_def split: sum.splits)
  from faces_to_remove_sorted [OF idxs] have "sort idxs = idxs"
    by (simp add: sorted_sort_id)
  moreover from idxs have "faces_to_remove m ?box (length ([] :: real Face list)) (faces m) = Inr idxs"
    by simp
  from faces_to_remove_pop [OF this]
  have "pop_all (faces m) (rev idxs) = Inr (filter (\<lambda>f. \<not> face_within m ?box f) (faces m))"
    by simp
  ultimately show ?thesis
    using fs m' by simp
qed

lemma cut_rectangular_hole_total:
  assumes "faces_in_range m"
  shows "\<exists>m'. cut_rectangular_hole m cx cy w h zb zt = Inr m'"
proof -
  let ?box = "(cx - w / 2, cx + w / 2, cy - h / 2, cy + h / 2, zb, zt)"
  from assms faces_to_remove_total [of m "faces m" ?box 0]
  obtain idxs where idxs: "faces_to_remove m ?box 0 (faces m) = Inr idxs"
    by (auto simp: faces_in_range_def)
  from faces_to_remove_sorted [OF idxs] have "sort idxs = idxs"
    by (simp add: sorted_sort_id)
  moreover from idxs have "faces_to_remove m ?box (length ([] :: real Face list)) (faces m) = Inr idxs"
    by simp
  from faces_to_remove_pop [OF this]
  have "pop_all (faces m) (rev idxs) = Inr (filter (\<lambda>f. \<not> face_within m ?box f) (faces m))"
    by simp
  ultimately show ?thesis
    using idxs by (simp add: cut_rectangular_hole_def Let_def)
qed

text \<open>
  C7 (as the code has it). On a mesh whose faces name existing vertices,
  \<open>cut_rectangular_hole\<close> succeeds and the face list afterwards is the old face list, in
  its order, without exactly those faces whose three vertices all lie within the cut
  volume's X, Y and Z bounds, the bounds included; every other face is kept and no face
  is added. Nothing else of the mesh changes.
\<close>

theorem cut_removes_faces_within_bounds:
  assumes "faces_in_range m"
  shows "cut_rectangular_hole m cx cy w h zb zt =
           Inr (m\<lparr>faces := filter (\<lambda>f. \<not> face_within m (cx - w / 2, cx + w / 2, cy - h / 2, cy + h / 2, zb, zt) f)
                                   (faces m)\<rparr>)"
  using cut_rectangular_hole_total [OF assms, of cx cy w h zb zt] cut_rectangular_hole_Inr [of m cx cy w h zb zt]
  by auto

lemma two_face_mesh_in_range: "faces_in_range two_face_mesh"
  by (simp add: faces_in_range_def two_face_mesh_def)

lemma two_face_mesh_within:
  "face_within two_face_mesh (1/2 - 1/2, 1/2 + 1/2, 1/2 - 1/2, 1/2 + 1/2, 0, 1)
     \<lparr>vertex_indices = (0, 1, 2), face_normal = None\<rparr>"
  "\<not> face_within two_face_mesh (1/2 - 1/2, 1/2 + 1/2, 1/2 - 1/2, 1/2 + 1/2, 0, 1)
     \<lparr>vertex_indices = (1, 2, 3), face_normal = None\<rparr>"
  by (simp_all add: face_within_def face_positions_def vertex_at_def in_cut_volume_def two_face_mesh_def)

theorem cut_removes_faces_within_bounds_witness:
  "faces_in_range two_face_mesh
   \<and> cut_rectangular_hole two_face_mesh (1/2) (1/2) 1 1 0 1 =
       Inr (two_face_mesh\<lparr>faces := [\<lparr>vertex_indices = (1, 2, 3), face_normal = None\<rparr>]\<rparr>)"
proof -
  have "faces two_face_mesh = [\<lparr>vertex_indices = (0, 1, 2), face_normal = None\<rparr>,
                               \<lparr>vertex_indices = (1, 2, 3), face_normal = None\<rparr>]"
    by (simp add: two_face_mesh_def)
  with cut_removes_faces_within_bounds [OF two_face_mesh_in_range, of "1/2" "1/2" 1 1 0 1]
    two_face_mesh_within two_face_mesh_in_range
  show ?thesis by simp
qed

text \<open>
  C7 as stated fails: the only face of \<open>boundary_mesh\<close> has its vertices on the boundary
  of the cut volume, so it does not lie strictly within the bounds, and the cut removes it.
\<close>

theorem cut_strictly_within_counterexample:
  "cut_rectangular_hole boundary_mesh (1/2) (1/2) 1 1 0 1 = Inr (boundary_mesh\<lparr>faces := []\<rparr>)
   \<and> faces boundary_mesh = [\<lparr>vertex_indices = (0, 1, 2), face_normal = None\<rparr>]
   \<and> \<not> face_strictly_within boundary_mesh (1/2 - 1/2, 1/2 + 1/2, 1/2 - 1/2, 1/2 + 1/2, 0, 1)
         \<lparr>vertex_indices = (0, 1, 2), face_normal = None\<rparr>"
proof -
  have r: "faces_in_range boundary_mesh"
    by (simp add: faces_in_range_def boundary_mesh_def)
  have f: "faces boundary_mesh = [\<lparr>vertex_indices = (0, 1, 2), face_normal = None\<rparr>]"
    by (simp add: boundary_mesh_def)
  have w: "face_within boundary_mesh (1/2 - 1/2, 1/2 + 1/2, 1/2 - 1/2, 1/2 + 1/2, 0, 1)
             \<lparr>vertex_indices = (0, 1, 2), face_normal = None\<rparr>"
    by (simp add: face_within_def face_positions_def vertex_at_def in_cut_volume_def boundary_mesh_def)
  have s: "\<not> face_strictly_within boundary_mesh (1/2 - 1/2, 1/2 + 1/2, 1/2 - 1/2, 1/2 + 1/2, 0, 1)
             \<lparr>vertex_indices = (0, 1, 2), face_normal = None\<rparr>"
    by (simp add: face_strictly_within_def face_positions_def vertex_at_def boundary_mesh_def)
  obtain m' where c: "cut_rectangular_hole boundary_mesh (1/2) (1/2) 1 1 0 1 = Inr m'"
    using cut_rectangular_hole_total [OF r] by blast
  from cut_rectangular_hole_Inr [OF c] f w have "m' = boundary_mesh\<lparr>faces := []\<rparr>"
    by simp
  with c f s show ?thesis by simp
qed

lemma cut_rectangular_hole_vertices_nonempty:
  assumes c: "cut_rectangular_hole m cx cy w h zb zt = Inr m'" and f: "faces m \<noteq> []"
  shows "vertices_m m \<noteq> []"
proof -
  let ?box = "(cx - w / 2, cx + w / 2, cy - h / 2, cy + h / 2, zb, zt)"
  from c obtain idxs where idxs: "faces_to_remove m ?box 0 (faces m) = Inr idxs"
    by (auto simp: cut_rectangular_hole_def Let_def split: sum.splits)
  from f obtain face rest where fs: "faces m = face # rest"
    by (cases "faces m") auto
  from idxs obtain vs where "face_positions m face = Inr vs"
    unfolding fs by (auto split: sum.splits)
  then obtain i where "i < length (vertices_m m)"
    by (auto simp: face_positions_def vertex_at_def split: prod.splits sum.splits if_splits)
  then show ?thesis by auto
qed

text \<open>
  C9 (as the code has it). Whenever \<open>cut_rectangular_hole\<close> returns, the vertex list of
  the mesh is the one it had before (same length, same positions and normals at the same
  indices) and so are the deduplication map and the name; only faces are removed. As long
  as a face remains, the vertex arrays the exporter builds from the cut mesh are the
  positions and normals of all vertices the mesh had before the cut, those of removed
  faces included; when the cut removes the last face the exporter builds no vertex array.
\<close>

theorem cut_leaves_vertices_unchanged:
  assumes "cut_rectangular_hole m cx cy w h zb zt = Inr m'"
  shows "vertices_m m' = vertices_m m
       \<and> vertex_hash_map m' = vertex_hash_map m
       \<and> name m' = name m
       \<and> length (faces m') \<le> length (faces m)
       \<and> prepare_vertex_arrays m' =
           (if faces m' = [] then None
            else Some (map position (vertices_m m), map normal (vertices_m m)))"
proof -
  note m' = cut_rectangular_hole_Inr [OF assms]
  have v: "vertices_m m' = vertices_m m" and hm: "vertex_hash_map m' = vertex_hash_map m"
    and n: "name m' = name m"
    by (subst m', simp)+
  have l: "length (faces m') \<le> length (faces m)"
    by (subst m') simp
  have "faces m' \<noteq> [] \<Longrightarrow> faces m \<noteq> []"
    by (subst (asm) m') auto
  then have "faces m' \<noteq> [] \<Longrightarrow> vertices_m m \<noteq> []"
    using cut_rectangular_hole_vertices_nonempty [OF assms] by blast
  then have p: "prepare_vertex_arrays m' =
           (if faces m' = [] then None
            else Some (map position (vertices_m m), map normal (vertices_m m)))"
    by (simp add: prepare_vertex_arrays_def v)
  show ?thesis
    by (intro conjI) (rule v hm n l p)+
qed

lemma two_face_mesh_cut:
  "cut_rectangular_hole two_face_mesh (1/2) (1/2) 1 1 0 1 =
     Inr (two_face_mesh\<lparr>faces := [\<lparr>vertex_indices = (1, 2, 3), face_normal = None\<rparr>]\<rparr>)"
proof -
  obtain m' where c: "cut_rectangular_hole two_face_mesh (1/2) (1/2) 1 1 0 1 = Inr m'"
    using cut_rectangular_hole_total [OF two_face_mesh_in_range] by blast
  have "faces two_face_mesh = [\<lparr>vertex_indices = (0, 1, 2), face_normal = None\<rparr>,
                               \<lparr>vertex_indices = (1, 2, 3), face_normal = None\<rparr>]"
    by (simp add: two_face_mesh_def)
  with cut_rectangular_hole_Inr [OF c] two_face_mesh_within c show ?thesis by simp
qed

text \<open>
  The cut of \<open>two_face_mesh\<close> removes the face (0, 1, 2) and keeps (1, 2, 3): all four
  vertices stay, and the exporter's arrays still hold vertex 0, which no face names any more.
\<close>

theorem cut_leaves_vertices_unchanged_witness:
  "cut_rectangular_hole two_face_mesh (1/2) (1/2) 1 1 0 1 =
     Inr (two_face_mesh\<lparr>faces := [\<lparr>vertex_indices = (1, 2, 3), face_normal = None\<rparr>]\<rparr>)
   \<and> vertices_m (two_face_mesh\<lparr>faces := [\<lparr>vertex_indices = (1, 2, 3), face_normal = None\<rparr>]\<rparr>)
       = vertices_m two_face_mesh
   \<and> length (vertices_m two_face_mesh) = 4
   \<and> prepare_vertex_arrays (two_face_mesh\<lparr>faces := [\<lparr>vertex_indices = (1, 2, 3), face_normal = None\<rparr>]\<rparr>)
       = Some ([(1/4, 1/4, 1/4), (3/4, 1/4, 1/4), (1/4, 3/4, 1/4), (5, 5, 5)],
               [(0, 0, 1), (0, 0, 1), (0, 0, 1), (0, 0, 1)])"
proof -
  let ?m' = "two_face_mesh\<lparr>faces := [\<lparr>vertex_indices = (1, 2, 3), face_normal = None\<rparr>]\<rparr>"
  note T = cut_leaves_vertices_unchanged [OF two_face_mesh_cut]
  note c1 = T [THEN conjunct1]
  note c5 = T [THEN conjunct2, THEN conjunct2, THEN conjunct2, THEN conjunct2]
  have len: "length (vertices_m two_face_mesh) = 4"
    by (simp add: two_face_mesh_def)
  have arrays: "prepare_vertex_arrays ?m'
       = Some ([(1/4, 1/4, 1/4), (3/4, 1/4, 1/4), (1/4, 3/4, 1/4), (5, 5, 5)],
               [(0, 0, 1), (0, 0, 1), (0, 0, 1), (0, 0, 1)])"
    by (subst c5) (simp add: two_face_mesh_def)
  show ?thesis
    by (intro conjI) (rule two_face_mesh_cut c1 len arrays)+
qed

lemma boundary_mesh_cut:
  "cut_rectangular_hole boundary_mesh (1/2) (1/2) 1 1 0 1 = Inr (boundary_mesh\<lparr>faces := []\<rparr>)"
proof -
  have r: "faces_in_range boundary_mesh"
    by (simp add: faces_in_range_def boundary_mesh_def)
  have f: "faces boundary_mesh = [\<lparr>vertex_indices = (0, 1, 2), face_normal = None\<rparr>]"
    by (simp add: boundary_mesh_def)
  have w: "face_within boundary_mesh (1/2 - 1/2, 1/2 + 1/2, 1/2 - 1/2, 1/2 + 1/2, 0, 1)
             \<lparr>vertex_indices = (0, 1, 2), face_normal = None\<rparr>"
    by (simp add: face_within_def face_positions_def vertex_at_def in_cut_volume_def boundary_mesh_def)
  obtain m' where c: "cut_rectangular_hole boundary_mesh (1/2) (1/2) 1 1 0 1 = Inr m'"
    using cut_rectangular_hole_total [OF r] by blast
  from cut_rectangular_hole_Inr [OF c] f w have "m' = boundary_mesh\<lparr>faces := []\<rparr>"
    by simp
  with c show ?thesis by simp
qed

text \<open>
  C9 as stated fails in its last part: the cut of \<open>boundary_mesh\<close> removes its only face,
  and the exporter, which built the arrays of three vertices before the cut, builds no
  vertex array after it, so the vertices of the removed face are not in the exported arrays.
\<close>

theorem cut_export_arrays_counterexample:
  "cut_rectangular_hole boundary_mesh (1/2) (1/2) 1 1 0 1 = Inr (boundary_mesh\<lparr>faces := []\<rparr>)
   \<and> vertices_m (boundary_mesh\<lparr>faces := []\<rparr>) = vertices_m boundary_mesh
   \<and> prepare_vertex_arrays boundary_mesh
       = Some ([(0, 0, 0), (1, 0, 0), (0, 1, 0)], [(0, 0, 1), (0, 0, 1), (0, 0, 1)])
   \<and> prepare_vertex_arrays (boundary_mesh\<lparr>faces := []\<rparr>) = None"
proof -
  have a: "vertices_m (boundary_mesh\<lparr>faces := []\<rparr>) = vertices_m boundary_mesh"
    by simp
  have b: "prepare_vertex_arrays boundary_mesh
       = Some ([(0, 0, 0), (1, 0, 0), (0, 1, 0)], [(0, 0, 1), (0, 0, 1), (0, 0, 1)])"
    by (simp add: prepare_vertex_arrays_def boundary_mesh_def)
  have c: "prepare_vertex_arrays (boundary_mesh\<lparr>faces := []\<rparr>) = None"
    by (simp add: prepare_vertex_arrays_def)
  show ?thesis
    by (intro conjI) (rule boundary_mesh_cut a b c)+
qed

section \<open>Wall graph: validation implies connectivity\<close>

lemma rtrancl_image_closed:
  assumes "A \<subseteq> S" and "\<And>a b. a \<in> S \<Longrightarrow> (a, b) \<in> E \<Longrightarrow> b \<in> S"
  shows "E\<^sup>* `` A \<subseteq> S"
proof
  fix y assume "y \<in> E\<^sup>* `` A"
  then obtain x where "x \<in> A" and "(x, y) \<in> E\<^sup>*" by blast
  from this(2) \<open>x \<in> A\<close> show "y \<in> S"
    by (induction rule: rtrancl_induct) (use assms in blast)+
qed

lemma bfs_result:
  "(\<And>a ns. map_of adj a = Some ns \<Longrightarrow> set ns \<subseteq> fst ` set adj) \<Longrightarrow>
   set queue \<subseteq> fst ` set adj \<Longrightarrow> distinct visited \<Longrightarrow>
   (\<And>a b. a \<in> set visited \<Longrightarrow> (a, b) \<in> adj_rel adj \<Longrightarrow> b \<in> set visited \<union> set queue) \<Longrightarrow>
   \<exists>vis. bfs adj queue visited = Inr vis \<and> distinct vis
         \<and> set vis = set visited \<union> (adj_rel adj)\<^sup>* `` set queue"
proof (induction adj queue visited rule: bfs.induct)
  case (1 adj visited)
  then show ?case by (simp add: bfs.simps)
next
  case (2 adj vid queue visited)
  let ?E = "adj_rel adj"
  show ?case
  proof (cases "vid \<in> set visited")
    case True
    have pre: "\<And>a b. a \<in> set visited \<Longrightarrow> (a, b) \<in> ?E \<Longrightarrow> b \<in> set visited \<union> set queue"
      using "2.prems"(4) True by fastforce
    from "2.IH"(1) [OF True] "2.prems"(1,2,3) pre
    obtain vis where vis: "bfs adj queue visited = Inr vis" "distinct vis"
      "set vis = set visited \<union> ?E\<^sup>* `` set queue"
      by auto
    let ?S = "set visited \<union> ?E\<^sup>* `` set queue"
    have "?E\<^sup>* `` {vid} \<subseteq> ?S"
    proof (rule rtrancl_image_closed)
      show "{vid} \<subseteq> ?S" using True by simp
    next
      fix a b assume "a \<in> ?S" and ab: "(a, b) \<in> ?E"
      then consider "a \<in> set visited" | "a \<in> ?E\<^sup>* `` set queue" by blast
      then show "b \<in> ?S"
      proof cases
        case 1
        from pre [OF 1 ab] show ?thesis by blast
      next
        case 2
        with ab have "b \<in> ?E\<^sup>* `` set queue"
          by (meson Image_iff rtrancl.rtrancl_into_rtrancl)
        then show ?thesis by blast
      qed
    qed
    moreover have "?E\<^sup>* `` set (vid # queue) = ?E\<^sup>* `` {vid} \<union> ?E\<^sup>* `` set queue"
      by auto
    ultimately have "set vis = set visited \<union> ?E\<^sup>* `` set (vid # queue)"
      using vis(3) by blast
    with vis True show ?thesis
      by (simp add: bfs.simps)
  next
    case False
    from "2.prems"(2) have "vid \<in> fst ` set adj" by simp
    then obtain ns where ns: "map_of adj vid = Some ns"
      by (metis map_of_eq_None_iff not_Some_eq)
    let ?q = "queue @ filter (\<lambda>neighbor_id. neighbor_id \<notin> set (visited @ [vid])) ns"
    let ?v = "visited @ [vid]"
    have nsk: "set ns \<subseteq> fst ` set adj"
      using "2.prems"(1) [OF ns] .
    have p1: "set ?q \<subseteq> fst ` set adj"
      using "2.prems"(2) nsk by auto
    have p2: "distinct ?v"
      using "2.prems"(3) False by simp
    have p3: "\<And>a b. a \<in> set ?v \<Longrightarrow> (a, b) \<in> ?E \<Longrightarrow> b \<in> set ?v \<union> set ?q"
    proof -
      fix a b assume a: "a \<in> set ?v" and ab: "(a, b) \<in> ?E"
      show "b \<in> set ?v \<union> set ?q"
      proof (cases "a = vid")
        case True
        with ab ns have "b \<in> set ns" by (simp add: adj_rel_def)
        then show ?thesis by auto
      next
        case False
        with a have "a \<in> set visited" by simp
        from "2.prems"(4) [OF this ab] have "b \<in> set visited \<union> set (vid # queue)" .
        then show ?thesis by auto
      qed
    qed
    from "2.IH"(2) [OF False ns] "2.prems"(1) p1 p2 p3
    obtain vis where vis: "bfs adj ?q ?v = Inr vis" "distinct vis"
      "set vis = set ?v \<union> ?E\<^sup>* `` set ?q"
      by auto
    let ?S = "set ?v \<union> ?E\<^sup>* `` set ?q"
    have S_closed: "\<And>a b. a \<in> ?S \<Longrightarrow> (a, b) \<in> ?E \<Longrightarrow> b \<in> ?S"
    proof -
      fix a b assume "a \<in> ?S" and ab: "(a, b) \<in> ?E"
      then consider "a \<in> set ?v" | "a \<in> ?E\<^sup>* `` set ?q" by blast
      then show "b \<in> ?S"
      proof cases
        case 1
        from p3 [OF 1 ab] show ?thesis by blast
      next
        case 2
        with ab have "b \<in> ?E\<^sup>* `` set ?q"
          by (meson Image_iff rtrancl.rtrancl_into_rtrancl)
        then show ?thesis by blast
      qed
    qed
    have sup: "?E\<^sup>* `` set (vid # queue) \<subseteq> ?S"
      by (rule rtrancl_image_closed [OF _ S_closed]) auto
    have "set ns \<subseteq> ?E\<^sup>* `` {vid}"
      using ns by (auto simp: adj_rel_def)
    then have "set ?q \<subseteq> ?E\<^sup>* `` set (vid # queue)"
      by auto
    then have "?E\<^sup>* `` set ?q \<subseteq> ?E\<^sup>* `` set (vid # queue)"
      by (intro rtrancl_image_closed) (auto intro: rtrancl.rtrancl_into_rtrancl)
    moreover have "vid \<in> ?E\<^sup>* `` set (vid # queue)"
      by auto
    ultimately have "set vis = set visited \<union> ?E\<^sup>* `` set (vid # queue)"
      using vis(3) sup by auto
    with vis False ns show ?thesis
      by (simp add: bfs.simps)
  qed
qed
lemma wf_graph_lookup:
  assumes "wf_graph g" and "map_of (adjacency g) a = Some ns" and "n \<in> set ns"
  shows "n \<in> fst ` set (adjacency g)" and "(n, a) \<in> adj_rel (adjacency g)"
proof -
  from assms(2) have mem: "(a, ns) \<in> set (adjacency g)"
    by (rule map_of_SomeD)
  from assms(1) have all: "list_all (\<lambda>(k, ns). list_all (\<lambda>n. n \<in> set (map fst (vertices g))
                                     \<and> (case map_of (adjacency g) n of
                                           None \<Rightarrow> False | Some ms \<Rightarrow> k \<in> set ms)) ns)
           (adjacency g)"
    and keys: "set (map fst (adjacency g)) = set (map fst (vertices g))"
    by (simp_all add: wf_graph_def)
  from all mem assms(3) have n: "n \<in> set (map fst (vertices g))"
    and bk: "(case map_of (adjacency g) n of None \<Rightarrow> False | Some ms \<Rightarrow> a \<in> set ms)"
    by (auto simp: list_all_iff)
  from n keys show "n \<in> fst ` set (adjacency g)" by simp
  from bk show "(n, a) \<in> adj_rel (adjacency g)"
    by (auto simp: adj_rel_def split: option.splits)
qed

lemma wf_graph_sym: "wf_graph g \<Longrightarrow> sym (adj_rel (adjacency g))"
  by (rule symI) (auto simp: adj_rel_def dest: wf_graph_lookup(2))

lemma wf_graph_bfs:
  assumes wf: "wf_graph g" and s: "s \<in> fst ` set (adjacency g)"
  shows "\<exists>vis. bfs (adjacency g) [s] [] = Inr vis \<and> distinct vis
               \<and> set vis = (adj_rel (adjacency g))\<^sup>* `` {s}
               \<and> set vis \<subseteq> fst ` set (adjacency g)"
proof -
  have closed: "\<And>a ns. map_of (adjacency g) a = Some ns \<Longrightarrow> set ns \<subseteq> fst ` set (adjacency g)"
    using wf_graph_lookup(1) [OF wf] by blast
  have "\<exists>vis. bfs (adjacency g) [s] [] = Inr vis \<and> distinct vis
               \<and> set vis = set [] \<union> (adj_rel (adjacency g))\<^sup>* `` set [s]"
  proof (rule bfs_result)
    show "\<And>a ns. map_of (adjacency g) a = Some ns \<Longrightarrow> set ns \<subseteq> fst ` set (adjacency g)"
      by (rule closed)
    show "set [s] \<subseteq> fst ` set (adjacency g)"
      using s by simp
    show "distinct []"
      by simp
    show "\<And>a b. a \<in> set [] \<Longrightarrow> (a, b) \<in> adj_rel (adjacency g) \<Longrightarrow> b \<in> set [] \<union> set [s]"
      by simp
  qed
  then obtain vis where vis: "bfs (adjacency g) [s] [] = Inr vis" "distinct vis"
    "set vis = (adj_rel (adjacency g))\<^sup>* `` {s}"
    by auto
  have "(adj_rel (adjacency g))\<^sup>* `` {s} \<subseteq> fst ` set (adjacency g)"
  proof (rule rtrancl_image_closed)
    show "{s} \<subseteq> fst ` set (adjacency g)" using s by simp
  next
    fix a b assume "(a, b) \<in> adj_rel (adjacency g)"
    then show "b \<in> fst ` set (adjacency g)"
      using closed by (auto simp: adj_rel_def)
  qed
  with vis show ?thesis by auto
qed

lemma validate_True_iff:
  "validate g = Inr (True, msg) \<Longrightarrow>
     2 \<le> length (vertices g) \<and> 1 \<le> length (edges g) \<and> is_connected g = Inr True"
  by (cases "edges g") (auto simp: validate_def split: if_splits sum.splits)

lemma is_connected_True:
  "is_connected g = Inr True \<Longrightarrow>
     \<exists>s0 v rest vis. vertices g = (s0, v) # rest \<and> bfs (adjacency g) [s0] [] = Inr vis
                     \<and> length vis = length (vertices g)"
  by (auto simp: is_connected_def split: list.splits sum.splits)

lemma validated_graph_connected:
  assumes wf: "wf_graph g" and ok: "validate g = Inr (True, msg)"
  shows "2 \<le> length (vertices g)" and "1 \<le> length (edges g)"
    and "\<And>s. s \<in> set (map fst (vertices g)) \<Longrightarrow>
           \<exists>visited. bfs (adjacency g) [s] [] = Inr visited \<and> distinct visited
                      \<and> set visited = set (map fst (vertices g))"
proof -
  let ?E = "adj_rel (adjacency g)"
  let ?K = "fst ` set (adjacency g)"
  from validate_True_iff [OF ok] show "2 \<le> length (vertices g)" and "1 \<le> length (edges g)"
    by blast+
  from validate_True_iff [OF ok] have "is_connected g = Inr True" by blast
  from is_connected_True [OF this] obtain s0 v rest vis0 where
    vs: "vertices g = (s0, v) # rest" and b0: "bfs (adjacency g) [s0] [] = Inr vis0"
    and len: "length vis0 = length (vertices g)"
    by blast
  from wf have keys: "?K = set (map fst (vertices g))"
    and dk: "distinct (map fst (vertices g))"
    by (simp_all add: wf_graph_def)
  from vs keys have s0: "s0 \<in> ?K" by simp
  from wf_graph_bfs [OF wf s0] b0 have d0: "distinct vis0"
    and r0: "set vis0 = ?E\<^sup>* `` {s0}" and sub0: "set vis0 \<subseteq> ?K"
    by auto
  have "card (set vis0) = length vis0"
    using d0 by (rule distinct_card)
  also have "\<dots> = card (set (map fst (vertices g)))"
    using len distinct_card [OF dk] by simp
  finally have "card (set vis0) = card ?K"
    using keys by simp
  with sub0 have all0: "set vis0 = ?K"
    by (intro card_subset_eq) auto
  fix s assume "s \<in> set (map fst (vertices g))"
  with keys have s: "s \<in> ?K" by simp
  from wf_graph_bfs [OF wf s] obtain vis where vis: "bfs (adjacency g) [s] [] = Inr vis"
    "distinct vis" "set vis = ?E\<^sup>* `` {s}" "set vis \<subseteq> ?K"
    by blast
  from s all0 r0 have "(s0, s) \<in> ?E\<^sup>*" by auto
  moreover have "sym (?E\<^sup>*)"
    using wf_graph_sym [OF wf] by (rule sym_rtrancl)
  ultimately have s_s0: "(s, s0) \<in> ?E\<^sup>*"
    by (rule symD [rotated])
  have "?K \<subseteq> ?E\<^sup>* `` {s}"
  proof
    fix y assume "y \<in> ?K"
    with all0 r0 have "(s0, y) \<in> ?E\<^sup>*" by auto
    with s_s0 have "(s, y) \<in> ?E\<^sup>*" by (rule rtrancl_trans)
    then show "y \<in> ?E\<^sup>* `` {s}" by simp
  qed
  with vis keys show "\<exists>visited. bfs (adjacency g) [s] [] = Inr visited \<and> distinct visited
                      \<and> set visited = set (map fst (vertices g))"
    by auto
qed
text \<open>The operations of the class establish the invariant.\<close>

lemma wf_graph_alt:
  "wf_graph g \<longleftrightarrow>
     distinct (map fst (vertices g)) \<and> distinct (map fst (adjacency g))
     \<and> distinct (map fst (edges g))
     \<and> fst ` set (adjacency g) = fst ` set (vertices g)
     \<and> (\<forall>k v. map_of (vertices g) k = Some v \<longrightarrow> id_v v = k \<and> k < vertex_counter g)
     \<and> (\<forall>k e. map_of (edges g) k = Some e \<longrightarrow>
            id_e e = k \<and> k < edge_counter g
            \<and> vertex_a e \<in> fst ` set (vertices g) \<and> vertex_b e \<in> fst ` set (vertices g))
     \<and> (\<forall>k ns n. map_of (adjacency g) k = Some ns \<longrightarrow> n \<in> set ns \<longrightarrow>
            n \<in> fst ` set (vertices g)
            \<and> (\<exists>ms. map_of (adjacency g) n = Some ms \<and> k \<in> set ms))"
  (is "?L \<longleftrightarrow> ?R")
proof
  assume L: ?L
  have adj: "n \<in> fst ` set (vertices g) \<and> (\<exists>ms. map_of (adjacency g) n = Some ms \<and> k \<in> set ms)"
    if k: "map_of (adjacency g) k = Some ns" and n: "n \<in> set ns" for k ns n
  proof -
    from L have "list_all (\<lambda>(k, ns). list_all (\<lambda>n. n \<in> set (map fst (vertices g))
                                     \<and> (case map_of (adjacency g) n of
                                           None \<Rightarrow> False | Some ms \<Rightarrow> k \<in> set ms)) ns)
           (adjacency g)"
      by (simp add: wf_graph_def)
    moreover from k have "(k, ns) \<in> set (adjacency g)"
      by (rule map_of_SomeD)
    ultimately have "n \<in> set (map fst (vertices g))
        \<and> (case map_of (adjacency g) n of None \<Rightarrow> False | Some ms \<Rightarrow> k \<in> set ms)"
      using n unfolding list_all_iff by blast
    then show ?thesis
      by (cases "map_of (adjacency g) n") simp_all
  qed
  have vs: "id_v v = k \<and> k < vertex_counter g" if "map_of (vertices g) k = Some v" for k v
  proof -
    from that have "(k, v) \<in> set (vertices g)" by (rule map_of_SomeD)
    moreover from L have "list_all (\<lambda>(k, v). id_v v = k \<and> k < vertex_counter g) (vertices g)"
      by (simp add: wf_graph_def)
    ultimately show ?thesis unfolding list_all_iff by blast
  qed
  have es: "id_e e = k \<and> k < edge_counter g
            \<and> vertex_a e \<in> fst ` set (vertices g) \<and> vertex_b e \<in> fst ` set (vertices g)"
    if "map_of (edges g) k = Some e" for k e
  proof -
    from that have "(k, e) \<in> set (edges g)" by (rule map_of_SomeD)
    moreover from L have "list_all (\<lambda>(k, e). id_e e = k \<and> k < edge_counter g
                     \<and> vertex_a e \<in> set (map fst (vertices g))
                     \<and> vertex_b e \<in> set (map fst (vertices g))) (edges g)"
      by (simp add: wf_graph_def)
    ultimately show ?thesis unfolding list_all_iff by auto
  qed
  from L have "distinct (map fst (vertices g))" "distinct (map fst (adjacency g))"
    "distinct (map fst (edges g))" "fst ` set (adjacency g) = fst ` set (vertices g)"
    by (simp_all add: wf_graph_def)
  with adj vs es show ?R by blast
next
  assume R: ?R
  then have d: "distinct (map fst (vertices g))" "distinct (map fst (adjacency g))"
    "distinct (map fst (edges g))"
    by blast+
  have v: "list_all (\<lambda>(k, v). id_v v = k \<and> k < vertex_counter g) (vertices g)"
    unfolding list_all_iff
  proof (clarify)
    fix k v assume "(k, v) \<in> set (vertices g)"
    with d(1) have "map_of (vertices g) k = Some v" by simp
    with R show "id_v v = k \<and> k < vertex_counter g" by blast
  qed
  have e: "list_all (\<lambda>(k, e). id_e e = k \<and> k < edge_counter g
                     \<and> vertex_a e \<in> set (map fst (vertices g))
                     \<and> vertex_b e \<in> set (map fst (vertices g))) (edges g)"
    unfolding list_all_iff
  proof (clarify)
    fix k e assume "(k, e) \<in> set (edges g)"
    with d(3) have "map_of (edges g) k = Some e" by simp
    with R have "id_e e = k \<and> k < edge_counter g
            \<and> vertex_a e \<in> fst ` set (vertices g) \<and> vertex_b e \<in> fst ` set (vertices g)"
      by blast
    then show "id_e e = k \<and> k < edge_counter g
                     \<and> vertex_a e \<in> set (map fst (vertices g))
                     \<and> vertex_b e \<in> set (map fst (vertices g))"
      by simp
  qed
  have a: "list_all (\<lambda>(k, ns). list_all (\<lambda>n. n \<in> set (map fst (vertices g))
                                     \<and> (case map_of (adjacency g) n of
                                           None \<Rightarrow> False | Some ms \<Rightarrow> k \<in> set ms)) ns)
           (adjacency g)"
    unfolding list_all_iff
  proof (clarify)
    fix k ns n assume "(k, ns) \<in> set (adjacency g)" and n: "n \<in> set ns"
    with d(2) have "map_of (adjacency g) k = Some ns" by simp
    with R n have "n \<in> fst ` set (vertices g)
        \<and> (\<exists>ms. map_of (adjacency g) n = Some ms \<and> k \<in> set ms)"
      by blast
    then show "n \<in> set (map fst (vertices g))
        \<and> (case map_of (adjacency g) n of None \<Rightarrow> False | Some ms \<Rightarrow> k \<in> set ms)"
      by auto
  qed
  from R have "set (map fst (adjacency g)) = set (map fst (vertices g))"
    by simp
  with d v e a show ?L
    unfolding wf_graph_def by blast
qed

lemma wf_graph_init: "wf_graph WallTopologyGraph_init"
  by (simp add: wf_graph_def WallTopologyGraph_init_def)

lemma wf_graph_add_vertex:
  assumes wf: "wf_graph g"
  shows "wf_graph (fst (add_vertex g pos junction corner))"
proof -
  let ?k = "vertex_counter g"
  let ?v = "\<lparr>id_v = ?k, position_v = pos, is_junction = junction, is_corner = corner, degree = 0\<rparr>"
  let ?g = "g\<lparr>vertices := AList.update ?k ?v (vertices g),
              adjacency := AList.update ?k [] (adjacency g),
              vertex_counter := ?k + 1\<rparr>"
  have g': "fst (add_vertex g pos junction corner) = ?g"
    by (simp add: add_vertex_def Let_def)
  note W = wf [unfolded wf_graph_alt]
  have fresh: "?k \<notin> fst ` set (vertices g)"
  proof
    assume "?k \<in> fst ` set (vertices g)"
    then obtain v where "map_of (vertices g) ?k = Some v"
      by (metis map_of_eq_None_iff not_Some_eq)
    with W show False by blast
  qed
  have "wf_graph ?g"
    unfolding wf_graph_alt
  proof (intro conjI allI impI)
    show "distinct (map fst (vertices ?g))"
      using W by (simp add: distinct_update)
    show "distinct (map fst (adjacency ?g))"
      using W by (simp add: distinct_update)
    show "distinct (map fst (edges ?g))"
      using W by simp
    show "fst ` set (adjacency ?g) = fst ` set (vertices ?g)"
      using W by (simp add: dom_update)
  next
    fix k v assume "map_of (vertices ?g) k = Some v"
    then have "k = ?k \<and> v = ?v \<or> map_of (vertices g) k = Some v"
      by (auto simp: update_conv' split: if_splits)
    with W show "id_v v = k" and "k < vertex_counter ?g"
      by (auto simp: less_Suc_eq)
  next
    fix k e assume "map_of (edges ?g) k = Some e"
    then have e: "map_of (edges g) k = Some e" by simp
    with W show "id_e e = k" and "k < edge_counter ?g"
      and "vertex_a e \<in> fst ` set (vertices ?g)" and "vertex_b e \<in> fst ` set (vertices ?g)"
      by (auto simp: dom_update)
  next
    fix k ns n assume "map_of (adjacency ?g) k = Some ns" and n: "n \<in> set ns"
    then have k: "map_of (adjacency g) k = Some ns"
      by (auto simp: update_conv' split: if_splits)
    with W n have nk: "n \<in> fst ` set (vertices g)"
      and "\<exists>ms. map_of (adjacency g) n = Some ms \<and> k \<in> set ms"
      by blast+
    then obtain ms where ms: "map_of (adjacency g) n = Some ms" "k \<in> set ms"
      by blast
    from nk fresh have "n \<noteq> ?k" by blast
    with ms show "\<exists>ms. map_of (adjacency ?g) n = Some ms \<and> k \<in> set ms"
      by (simp add: update_conv')
    from nk show "n \<in> fst ` set (vertices ?g)"
      by (simp add: dom_update)
  qed
  with g' show ?thesis by simp
qed
lemma add_edge_Inr:
  assumes "add_edge g a b len pts = Inr (g', e)"
  shows "\<exists>na nb. map_of (adjacency g) a = Some na
           \<and> map_of (AList.update a (List.insert b na) (adjacency g)) b = Some nb
           \<and> e = \<lparr>id_e = edge_counter g, vertex_a = a, vertex_b = b, length_px = len, points = pts\<rparr>
           \<and> g' = g\<lparr>vertices := AList.map_entry b (\<lambda>v. v\<lparr>degree := degree v + 1\<rparr>)
                                   (AList.map_entry a (\<lambda>v. v\<lparr>degree := degree v + 1\<rparr>) (vertices g)),
                      edges := AList.update (edge_counter g) e (edges g),
                      adjacency := AList.update b (List.insert a nb)
                                     (AList.update a (List.insert b na) (adjacency g)),
                      edge_counter := edge_counter g + 1\<rparr>"
  using assms unfolding add_edge_def Let_def
  by (auto split: option.splits)

lemma map_of_degree_entry:
  "map_of (AList.map_entry k (\<lambda>v. v\<lparr>degree := degree v + 1\<rparr>) vs) j = Some v' \<Longrightarrow>
     \<exists>v. map_of vs j = Some v \<and> id_v v' = id_v v \<and> position_v v' = position_v v"
  by (auto simp: map_of_map_entry split: if_splits option.splits)

lemma wf_graph_add_edge:
  assumes wf: "wf_graph g" and ae: "add_edge g a b len pts = Inr (g', e)"
  shows "wf_graph g'"
proof -
  let ?M = "map_of (adjacency g)"
  let ?f = "\<lambda>v. v\<lparr>degree := degree v + 1\<rparr>"
  from add_edge_Inr [OF ae] obtain na nb where
    na: "?M a = Some na" and
    nb: "map_of (AList.update a (List.insert b na) (adjacency g)) b = Some nb" and
    e: "e = \<lparr>id_e = edge_counter g, vertex_a = a, vertex_b = b, length_px = len, points = pts\<rparr>" and
    g': "g' = g\<lparr>vertices := AList.map_entry b ?f (AList.map_entry a ?f (vertices g)),
                 edges := AList.update (edge_counter g) e (edges g),
                 adjacency := AList.update b (List.insert a nb)
                                (AList.update a (List.insert b na) (adjacency g)),
                 edge_counter := edge_counter g + 1\<rparr>"
    by blast
  note W = wf [unfolded wf_graph_alt]
  let ?M' = "map_of (adjacency g')"
  have M': "?M' = (?M(a \<mapsto> List.insert b na))(b \<mapsto> List.insert a nb)"
    by (simp add: g' update_conv')
  from nb have nb': "(if b = a then nb = List.insert b na else ?M b = Some nb)"
    by (auto simp: update_conv' split: if_splits)
  have a_key: "a \<in> fst ` set (adjacency g)"
    using na by (metis map_of_eq_None_iff option.distinct(1))
  have b_key: "b \<in> fst ` set (adjacency g)"
    using nb' a_key by (metis map_of_eq_None_iff option.distinct(1))
  have keys: "fst ` set (adjacency g') = fst ` set (adjacency g)"
    using a_key b_key by (auto simp: g' dom_update)
  have vkeys: "fst ` set (vertices g') = fst ` set (vertices g)"
    by (simp add: g' dom_map_entry)
  have old: "\<exists>ns. ?M k = Some ns
               \<and> set ns' = set ns \<union> (if k = a then {b} else {}) \<union> (if k = b then {a} else {})"
    if "?M' k = Some ns'" for k ns'
    using that na nb' unfolding M'
    by (cases "k = a"; cases "k = b") (auto split: if_splits)
  have new: "\<exists>ns'. ?M' k = Some ns'
               \<and> set ns' = set ns \<union> (if k = a then {b} else {}) \<union> (if k = b then {a} else {})"
    if "?M k = Some ns" for k ns
    using that na nb' unfolding M'
    by (cases "k = a"; cases "k = b") (auto split: if_splits)
  have fresh: "edge_counter g \<notin> fst ` set (edges g)"
  proof
    assume "edge_counter g \<in> fst ` set (edges g)"
    then obtain x where "map_of (edges g) (edge_counter g) = Some x"
      by (metis map_of_eq_None_iff not_Some_eq)
    with W show False by blast
  qed
  show ?thesis
    unfolding wf_graph_alt
  proof (intro conjI allI impI)
    show "distinct (map fst (vertices g'))"
      using W by (simp add: g' distinct_map_entry)
    show "distinct (map fst (adjacency g'))"
      using W by (simp add: g' distinct_update)
    show "distinct (map fst (edges g'))"
      using W by (simp add: g' distinct_update)
    show "fst ` set (adjacency g') = fst ` set (vertices g')"
      using W keys vkeys by simp
  next
    fix k v assume "map_of (vertices g') k = Some v"
    then have "map_of (AList.map_entry b ?f (AList.map_entry a ?f (vertices g))) k = Some v"
      by (simp add: g')
    from map_of_degree_entry [OF this] obtain v1 where
      "map_of (AList.map_entry a ?f (vertices g)) k = Some v1" "id_v v = id_v v1"
      by blast
    moreover from map_of_degree_entry [OF this(1)] obtain v0 where
      "map_of (vertices g) k = Some v0" "id_v v1 = id_v v0"
      by blast
    ultimately have "map_of (vertices g) k = Some v0" "id_v v = id_v v0"
      by simp_all
    with W show "id_v v = k" and "k < vertex_counter g'"
      by (auto simp: g')
  next
    fix k x assume "map_of (edges g') k = Some x"
    then have "k = edge_counter g \<and> x = e \<or> map_of (edges g) k = Some x"
      by (auto simp: g' update_conv' split: if_splits)
    then consider "k = edge_counter g" "x = e" | "map_of (edges g) k = Some x"
      by blast
    then have "id_e x = k \<and> k < edge_counter g'
        \<and> vertex_a x \<in> fst ` set (vertices g) \<and> vertex_b x \<in> fst ` set (vertices g)"
    proof cases
      case 1
      have "a \<in> fst ` set (vertices g)" and "b \<in> fst ` set (vertices g)"
        using W a_key b_key by blast+
      with 1 show ?thesis
        by (simp add: e g')
    next
      case 2
      with W have "id_e x = k \<and> k < edge_counter g
        \<and> vertex_a x \<in> fst ` set (vertices g) \<and> vertex_b x \<in> fst ` set (vertices g)"
        by blast
      then show ?thesis
        by (simp add: g')
    qed
    then show "id_e x = k" and "k < edge_counter g'"
      and "vertex_a x \<in> fst ` set (vertices g')" and "vertex_b x \<in> fst ` set (vertices g')"
      using vkeys by simp_all
  next
    fix k ns' n assume k: "?M' k = Some ns'" and n: "n \<in> set ns'"
    from old [OF k] obtain ns where ns: "?M k = Some ns"
      "set ns' = set ns \<union> (if k = a then {b} else {}) \<union> (if k = b then {a} else {})"
      by blast
    from n ns(2) consider "n \<in> set ns" | "k = a" "n = b" | "k = b" "n = a"
      by (auto split: if_splits)
    then have "n \<in> fst ` set (vertices g) \<and> (\<exists>ms. ?M' n = Some ms \<and> k \<in> set ms)"
    proof cases
      case 1
      with W ns(1) have nk: "n \<in> fst ` set (vertices g)"
        and "\<exists>ms. ?M n = Some ms \<and> k \<in> set ms"
        by blast+
      then obtain ms where ms: "?M n = Some ms" "k \<in> set ms" by blast
      from new [OF ms(1)] ms(2) have "\<exists>ms. ?M' n = Some ms \<and> k \<in> set ms"
        by auto
      with nk show ?thesis by blast
    next
      case 2
      from b_key obtain ms where ms: "?M b = Some ms"
        by (metis map_of_eq_None_iff not_Some_eq)
      from new [OF ms] 2 have "\<exists>ms. ?M' n = Some ms \<and> k \<in> set ms"
        by auto
      with 2 b_key W show ?thesis by simp
    next
      case 3
      from new [OF na] 3 have "\<exists>ms. ?M' n = Some ms \<and> k \<in> set ms"
        by auto
      with 3 a_key W show ?thesis by simp
    qed
    then show "n \<in> fst ` set (vertices g')" and "\<exists>ms. ?M' n = Some ms \<and> k \<in> set ms"
      using vkeys by simp_all
  qed
qed

lemma built_wf_graph: "built g \<Longrightarrow> wf_graph g"
  by (induction rule: built.induct)
     (simp_all add: wf_graph_init wf_graph_add_vertex wf_graph_add_edge)
lemma built_add_key_points: "built g \<Longrightarrow> built (add_key_points g junctions corners ps)"
  by (induction g junctions corners ps rule: add_key_points.induct) (auto intro: built_vertex)

lemma built_connect_pair: "built g \<Longrightarrow> connect_pair g v1 v2 = Inr g' \<Longrightarrow> built g'"
  by (auto simp: connect_pair_def Let_def trace_skeleton_path_def
           split: if_splits sum.splits intro: built_edge)

lemma built_connect_inner: "built g \<Longrightarrow> connect_inner g v1 vs = Inr g' \<Longrightarrow> built g'"
  by (induction vs arbitrary: g) (auto split: sum.splits dest: built_connect_pair)

lemma built_connect_outer: "built g \<Longrightarrow> connect_outer g vs = Inr g' \<Longrightarrow> built g'"
  by (induction vs arbitrary: g) (auto split: sum.splits dest: built_connect_inner)

lemma built_build_graph: "build_graph junctions corners endpoints = Inr g \<Longrightarrow> built g"
  unfolding build_graph_def Let_def
  by (rule built_connect_outer [rotated, where g = "add_key_points WallTopologyGraph_init junctions corners (junctions @ corners @ endpoints)"])
     (auto intro: built_add_key_points built_init)

lemma stage3_Some:
  "stage3_topology_extraction junctions corners endpoints = Inr (Some g) \<Longrightarrow>
     wf_graph g \<and> (\<exists>msg. validate g = Inr (True, msg))"
proof -
  assume a: "stage3_topology_extraction junctions corners endpoints = Inr (Some g)"
  then have b: "build_graph junctions corners endpoints = Inr g"
    by (auto simp: stage3_topology_extraction_def split: sum.splits if_splits)
  with a have "\<exists>msg. validate g = Inr (True, msg)"
    by (auto simp: stage3_topology_extraction_def split: sum.splits if_splits)
  moreover from b have "wf_graph g"
    by (intro built_wf_graph built_build_graph)
  ultimately show ?thesis by blast
qed

text \<open>
  C4. A graph that has the invariant of the class (every graph made with \<open>add_vertex\<close> and
  \<open>add_edge\<close> has it, see \<open>built_wf_graph\<close>) and that \<open>validate\<close> accepts, in particular
  every graph \<open>stage3_topology_extraction\<close> returns, has at least two vertices, at least
  one edge, and breadth-first traversal from any of its vertices reaches all of them.
\<close>

theorem validated_graph_is_connected:
  assumes "wf_graph g \<and> validate g = Inr (True, msg)
           \<or> stage3_topology_extraction junctions corners endpoints = Inr (Some g)"
  shows "2 \<le> length (vertices g) \<and> 1 \<le> length (edges g) \<and> bfs_reaches_all g"
proof -
  from assms stage3_Some obtain msg' where wf: "wf_graph g" and ok: "validate g = Inr (True, msg')"
    by blast
  note C = validated_graph_connected [OF wf ok]
  have "bfs_reaches_all g"
    unfolding bfs_reaches_all_def list_all_iff
  proof
    fix s assume "s \<in> set (map fst (vertices g))"
    from C(3) [OF this] show "case bfs (adjacency g) [s] [] of Inl e \<Rightarrow> False
                    | Inr visited \<Rightarrow> set visited = set (map fst (vertices g))"
      by auto
  qed
  with C(1,2) show ?thesis by blast
qed

lemma path_graph_wf: "wf_graph path_graph"
  by (simp add: wf_graph_def path_graph_def)

lemma path_graph_valid: "validate path_graph = Inr (True, ''Graph structure valid'')"
  by (simp add: validate_def is_connected_def path_graph_def bfs.simps)

theorem validated_graph_is_connected_witness:
  "wf_graph path_graph \<and> validate path_graph = Inr (True, ''Graph structure valid'')
   \<and> length (vertices path_graph) = 3 \<and> length (edges path_graph) = 2
   \<and> bfs_reaches_all path_graph
   \<and> bfs (adjacency path_graph) [2] [] = Inr [2, 1, 0]"
proof -
  have h: "wf_graph path_graph \<and> validate path_graph = Inr (True, ''Graph structure valid'')
           \<or> stage3_topology_extraction [] [] [] = Inr (Some path_graph)"
    using path_graph_wf path_graph_valid by blast
  have "bfs (adjacency path_graph) [2] [] = Inr [2, 1, 0]"
    by (simp add: path_graph_def bfs.simps)
  moreover have "length (vertices path_graph) = 3" "length (edges path_graph) = 2"
    by (simp_all add: path_graph_def)
  ultimately show ?thesis
    using validated_graph_is_connected [OF h] path_graph_wf path_graph_valid by blast
qed

section \<open>Metric normalization: scale factor and rewritten vertex positions\<close>

lemma update_fresh: "k \<notin> fst ` set al \<Longrightarrow> AList.update k v al = al @ [(k, v)]"
  by (induction al) auto

lemma map_entry_positions:
  "(\<And>v. position_v (f v) = position_v v) \<Longrightarrow>
   map (\<lambda>(k, v). position_v v) (AList.map_entry j f vs) = map (\<lambda>(k, v). position_v v) vs"
  by (induction vs) auto

lemma wf_graph_fresh_vertex: "wf_graph g \<Longrightarrow> vertex_counter g \<notin> fst ` set (vertices g)"
proof
  assume wf: "wf_graph g" and "vertex_counter g \<in> fst ` set (vertices g)"
  then obtain v where "map_of (vertices g) (vertex_counter g) = Some v"
    by (metis map_of_eq_None_iff not_Some_eq)
  with wf [unfolded wf_graph_alt] show False by blast
qed

lemma add_vertex_positions:
  assumes "wf_graph g"
  shows "map (\<lambda>(k, v). position_v v) (vertices (fst (add_vertex g pos j c)))
           = map (\<lambda>(k, v). position_v v) (vertices g) @ [pos]"
    and "edges (fst (add_vertex g pos j c)) = edges g"
    and "id_v (snd (add_vertex g pos j c)) \<in> fst ` set (adjacency (fst (add_vertex g pos j c)))"
    and "fst ` set (adjacency g) \<subseteq> fst ` set (adjacency (fst (add_vertex g pos j c)))"
  using wf_graph_fresh_vertex [OF assms]
  by (simp_all add: add_vertex_def Let_def update_fresh dom_update subset_insertI)

lemma add_edge_total:
  assumes "a \<in> fst ` set (adjacency g)" and "b \<in> fst ` set (adjacency g)"
  shows "\<exists>g' e. add_edge g a b len pts = Inr (g', e)"
proof -
  from assms(1) obtain na where na: "map_of (adjacency g) a = Some na"
    by (metis map_of_eq_None_iff not_Some_eq)
  from assms(2) have "b \<in> fst ` set (AList.update a (List.insert b na) (adjacency g))"
    by (simp add: dom_update)
  then obtain nb where "map_of (AList.update a (List.insert b na) (adjacency g)) b = Some nb"
    by (metis map_of_eq_None_iff not_Some_eq)
  with na show ?thesis
    by (simp add: add_edge_def Let_def)
qed

lemma add_edge_positions:
  assumes "add_edge g a b len pts = Inr (g', e)"
  shows "map (\<lambda>(k, v). position_v v) (vertices g') = map (\<lambda>(k, v). position_v v) (vertices g)"
    and "fst ` set (adjacency g') = fst ` set (adjacency g)"
proof -
  from add_edge_Inr [OF assms] obtain na nb where
    na: "map_of (adjacency g) a = Some na" and
    nb: "map_of (AList.update a (List.insert b na) (adjacency g)) b = Some nb" and
    g': "g' = g\<lparr>vertices := AList.map_entry b (\<lambda>v. v\<lparr>degree := degree v + 1\<rparr>)
                                   (AList.map_entry a (\<lambda>v. v\<lparr>degree := degree v + 1\<rparr>) (vertices g)),
                 edges := AList.update (edge_counter g) e (edges g),
                 adjacency := AList.update b (List.insert a nb)
                                (AList.update a (List.insert b na) (adjacency g)),
                 edge_counter := edge_counter g + 1\<rparr>"
    by blast
  show "map (\<lambda>(k, v). position_v v) (vertices g') = map (\<lambda>(k, v). position_v v) (vertices g)"
    by (simp add: g' map_entry_positions)
  have a: "a \<in> fst ` set (adjacency g)"
    using na by (metis map_of_eq_None_iff option.distinct(1))
  have "b \<in> fst ` set (AList.update a (List.insert b na) (adjacency g))"
    using nb by (metis map_of_eq_None_iff option.distinct(1))
  then have "b \<in> fst ` set (adjacency g)"
    using a by (auto simp: dom_update)
  with a show "fst ` set (adjacency g') = fst ` set (adjacency g)"
    by (auto simp: g' dom_update)
qed

lemma transform_vertices_result:
  assumes "wf_graph ng" and "\<forall>(k, n) \<in> set vm. n \<in> fst ` set (adjacency ng)"
  shows "\<exists>ng' vm'. transform_vertices sf (ng, vm) vs = (ng', vm')
          \<and> wf_graph ng' \<and> edges ng' = edges ng
          \<and> map (\<lambda>(k, v). position_v v) (vertices ng')
              = map (\<lambda>(k, v). position_v v) (vertices ng)
                @ map (\<lambda>(k, v). (fst (position_v v) / sf, snd (position_v v) / sf)) vs
          \<and> fst ` set vm' = fst ` set vm \<union> fst ` set vs
          \<and> (\<forall>(k, n) \<in> set vm'. n \<in> fst ` set (adjacency ng'))"
  using assms
proof (induction vs arbitrary: ng vm)
  case Nil
  then show ?case by simp
next
  case (Cons kv rest)
  obtain old_id old_vertex where kv: "kv = (old_id, old_vertex)" by (cases kv)
  let ?pos = "(fst (position_v old_vertex) / sf, snd (position_v old_vertex) / sf)"
  let ?r = "add_vertex ng ?pos (is_junction old_vertex) (is_corner old_vertex)"
  let ?vm = "AList.update old_id (id_v (snd ?r)) vm"
  note P = add_vertex_positions [OF Cons.prems(1), of ?pos "is_junction old_vertex" "is_corner old_vertex"]
  have wf': "wf_graph (fst ?r)"
    by (rule wf_graph_add_vertex [OF Cons.prems(1)])
  have vm_ok: "\<forall>(k, n) \<in> set ?vm. n \<in> fst ` set (adjacency (fst ?r))"
  proof (clarify)
    fix k n assume "(k, n) \<in> set ?vm"
    then have "(k, n) \<in> set vm \<or> n = id_v (snd ?r)"
      by (induction vm) (auto split: if_splits)
    with Cons.prems(2) P(3,4) show "n \<in> fst ` set (adjacency (fst ?r))"
      by auto
  qed
  from Cons.IH [OF wf' vm_ok] obtain ng' vm' where
    r: "transform_vertices sf (fst ?r, ?vm) rest = (ng', vm')" and
    w: "wf_graph ng'" and e: "edges ng' = edges (fst ?r)" and
    p: "map (\<lambda>(k, v). position_v v) (vertices ng')
          = map (\<lambda>(k, v). position_v v) (vertices (fst ?r))
            @ map (\<lambda>(k, v). (fst (position_v v) / sf, snd (position_v v) / sf)) rest" and
    d: "fst ` set vm' = fst ` set ?vm \<union> fst ` set rest" and
    v: "\<forall>(k, n) \<in> set vm'. n \<in> fst ` set (adjacency ng')"
    by blast
  have "transform_vertices sf (ng, vm) (kv # rest) = (ng', vm')"
    using r by (simp add: kv Let_def split_beta)
  moreover have "fst ` set vm' = fst ` set vm \<union> fst ` set (kv # rest)"
    using d by (auto simp: kv dom_update)
  moreover have "map (\<lambda>(k, v). position_v v) (vertices ng')
              = map (\<lambda>(k, v). position_v v) (vertices ng)
                @ map (\<lambda>(k, v). (fst (position_v v) / sf, snd (position_v v) / sf)) (kv # rest)"
    using p P(1) by (simp add: kv)
  ultimately show ?case
    using w e P(2) v by auto
qed

lemma transform_edges_result:
  assumes "wf_graph ng" and "\<forall>(k, n) \<in> set vm. n \<in> fst ` set (adjacency ng)"
    and "\<forall>(k, e) \<in> set es. vertex_a e \<in> fst ` set vm \<and> vertex_b e \<in> fst ` set vm"
  shows "\<exists>ng'. transform_edges sf vm ng es = Inr ng' \<and> wf_graph ng'
          \<and> map (\<lambda>(k, v). position_v v) (vertices ng') = map (\<lambda>(k, v). position_v v) (vertices ng)"
  using assms
proof (induction es arbitrary: ng)
  case Nil
  then show ?case by simp
next
  case (Cons ke rest)
  obtain k old_edge where ke: "ke = (k, old_edge)" by (cases ke)
  from Cons.prems(3) have ea: "vertex_a old_edge \<in> fst ` set vm" and eb: "vertex_b old_edge \<in> fst ` set vm"
    by (auto simp: ke)
  from ea obtain new_va where va: "map_of vm (vertex_a old_edge) = Some new_va"
    by (metis map_of_eq_None_iff not_Some_eq)
  from eb obtain new_vb where vb: "map_of vm (vertex_b old_edge) = Some new_vb"
    by (metis map_of_eq_None_iff not_Some_eq)
  from va vb Cons.prems(2) have "new_va \<in> fst ` set (adjacency ng)" "new_vb \<in> fst ` set (adjacency ng)"
    by (auto dest!: map_of_SomeD)
  from add_edge_total [OF this] obtain ng1 e1 where
    ae: "add_edge ng new_va new_vb (length_px old_edge / sf)
           (map (\<lambda>p. (fst p / sf, snd p / sf)) (points old_edge)) = Inr (ng1, e1)"
    by blast
  have wf1: "wf_graph ng1"
    by (rule wf_graph_add_edge [OF Cons.prems(1) ae])
  note P = add_edge_positions [OF ae]
  have vm1: "\<forall>(k, n) \<in> set vm. n \<in> fst ` set (adjacency ng1)"
    using Cons.prems(2) P(2) by simp
  have es1: "\<forall>(k, e) \<in> set rest. vertex_a e \<in> fst ` set vm \<and> vertex_b e \<in> fst ` set vm"
    using Cons.prems(3) by simp
  from Cons.IH [OF wf1 vm1 es1] obtain ng' where
    "transform_edges sf vm ng1 rest = Inr ng'" "wf_graph ng'"
    "map (\<lambda>(k, v). position_v v) (vertices ng') = map (\<lambda>(k, v). position_v v) (vertices ng1)"
    by blast
  with va vb ae P(1) show ?case
    by (simp add: ke Let_def)
qed

lemma transform_wall_graph_result:
  assumes wf: "wf_graph g"
  shows "\<exists>g'. transform_wall_graph sf g = Inr g' \<and> wf_graph g'
          \<and> map (\<lambda>(k, v). position_v v) (vertices g')
              = map (\<lambda>(k, v). (fst (position_v v) / sf, snd (position_v v) / sf)) (vertices g)"
proof -
  have "\<forall>(k, n) \<in> set ([] :: (nat \<times> nat) list). n \<in> fst ` set (adjacency WallTopologyGraph_init)"
    by simp
  from transform_vertices_result [OF wf_graph_init this, of sf "vertices g"]
  obtain ng vm where tv: "transform_vertices sf (WallTopologyGraph_init, []) (vertices g) = (ng, vm)"
    and w: "wf_graph ng"
    and p: "map (\<lambda>(k, v). position_v v) (vertices ng)
              = map (\<lambda>(k, v). (fst (position_v v) / sf, snd (position_v v) / sf)) (vertices g)"
    and d: "fst ` set vm = fst ` set (vertices g)"
    and v: "\<forall>(k, n) \<in> set vm. n \<in> fst ` set (adjacency ng)"
    by (auto simp: WallTopologyGraph_init_def)
  have es: "\<forall>(k, e) \<in> set (edges g). vertex_a e \<in> fst ` set vm \<and> vertex_b e \<in> fst ` set vm"
  proof (clarify)
    fix k e assume "(k, e) \<in> set (edges g)"
    moreover from wf have "distinct (map fst (edges g))" by (simp add: wf_graph_def)
    ultimately have "map_of (edges g) k = Some e" by simp
    with wf [unfolded wf_graph_alt] d
    show "vertex_a e \<in> fst ` set vm \<and> vertex_b e \<in> fst ` set vm" by blast
  qed
  from transform_edges_result [OF w v es, of sf] tv p show ?thesis
    by (auto simp: transform_wall_graph_def)
qed
lemma estimates_nonempty:
  "vertices g \<noteq> [] \<Longrightarrow> estimate_building_width w g = max (bbox_width g) (bbox_height g)"
  "vertices g \<noteq> [] \<Longrightarrow> estimate_building_height h g = bbox_height g"
  by (simp_all add: estimate_building_width_def estimate_building_height_def
        bbox_width_def bbox_height_def Let_def)

text \<open>
  C3 (as the code has it). For a wall graph with the class invariant and a non-empty
  vertex set, normalization succeeds exactly when the vertex bounding box has positive
  height and the scale factor, the larger of the box's width and height divided by the
  reference width of 12 m, lies between 0.1 and 100. Then the context carries that scale
  factor and the new graph has, vertex by vertex in the old order, the old position with
  both coordinates divided by the scale factor. Otherwise normalization fails and no
  graph is produced.
\<close>

theorem normalize_scale_and_positions:
  assumes wf: "wf_graph g" and ne: "vertices g \<noteq> []"
  shows "if 0 < bbox_height g
            \<and> 1 / 10 \<le> max (bbox_width g) (bbox_height g) / REFERENCE_BUILDING_WIDTH
            \<and> max (bbox_width g) (bbox_height g) / REFERENCE_BUILDING_WIDTH \<le> 100
         then \<exists>ctx g'. normalize (h, w) g = Inr (Some (ctx, g'))
                \<and> scale_factor ctx = max (bbox_width g) (bbox_height g) / REFERENCE_BUILDING_WIDTH
                \<and> map (\<lambda>(k, v). position_v v) (vertices g')
                    = map (\<lambda>(k, v). (fst (position_v v) / scale_factor ctx,
                                        snd (position_v v) / scale_factor ctx)) (vertices g)
         else normalize (h, w) g = Inr None"
proof -
  define d where "d = max (bbox_width g) (bbox_height g)"
  define sf where "sf = d / REFERENCE_BUILDING_WIDTH"
  let ?ctx = "\<lparr>image_width_px = w, image_height_px = h, detected_width_px = d,
               detected_height_px = bbox_height g, scale_factor = sf,
               target_width_m = REFERENCE_BUILDING_WIDTH\<rparr>"
  note E = estimates_nonempty [OF ne, folded d_def]
  have val: "validate_context ?ctx \<longleftrightarrow> 1 / 10 \<le> sf \<and> sf \<le> 100"
    unfolding validate_context_def by (simp only: NormalizationContext.simps de_Morgan_disj not_less)
  have n: "normalize (h, w) g =
             (if d \<le> 0 \<or> bbox_height g \<le> 0 then Inr None
              else if \<not> validate_context ?ctx then Inr None
              else (case transform_wall_graph sf g of
                      Inl e \<Rightarrow> Inl e
                    | Inr normalized \<Rightarrow> Inr (Some (?ctx, normalized))))"
    unfolding normalize_def prod.case Let_def E sf_def
    by (simp only: NormalizationContext.simps)
  have dpos: "0 < bbox_height g \<Longrightarrow> 0 < d"
    unfolding d_def by simp
  show ?thesis
    unfolding d_def [symmetric] sf_def [symmetric]
  proof (cases "0 < bbox_height g \<and> 1 / 10 \<le> sf \<and> sf \<le> 100")
    case True
    then have pos: "\<not> (d \<le> 0 \<or> bbox_height g \<le> 0)"
      using dpos by (simp add: not_le)
    from True val have v: "validate_context ?ctx"
      by blast
    from transform_wall_graph_result [OF wf, of sf] obtain g' where
      t: "transform_wall_graph sf g = Inr g'" and
      p: "map (\<lambda>(k, v). position_v v) (vertices g')
            = map (\<lambda>(k, v). (fst (position_v v) / sf, snd (position_v v) / sf)) (vertices g)"
      by blast
    have "normalize (h, w) g = Inr (Some (?ctx, g'))"
      unfolding n using pos v t by (simp only: if_False if_True sum.case simp_thms)
    moreover have "scale_factor ?ctx = sf"
      by simp
    ultimately have "\<exists>ctx g'. normalize (h, w) g = Inr (Some (ctx, g'))
                \<and> scale_factor ctx = sf
                \<and> map (\<lambda>(k, v). position_v v) (vertices g')
                    = map (\<lambda>(k, v). (fst (position_v v) / scale_factor ctx,
                                        snd (position_v v) / scale_factor ctx)) (vertices g)"
      using p by (intro exI [of _ ?ctx] exI [of _ g']) (simp only: simp_thms)
    with True show "if 0 < bbox_height g \<and> 1 / 10 \<le> sf \<and> sf \<le> 100
         then \<exists>ctx g'. normalize (h, w) g = Inr (Some (ctx, g'))
                \<and> scale_factor ctx = sf
                \<and> map (\<lambda>(k, v). position_v v) (vertices g')
                    = map (\<lambda>(k, v). (fst (position_v v) / scale_factor ctx,
                                        snd (position_v v) / scale_factor ctx)) (vertices g)
         else normalize (h, w) g = Inr None"
      by simp
  next
    case False
    then have "bbox_height g \<le> 0 \<or> \<not> validate_context ?ctx"
      using val by (auto simp only: not_less)
    then have "normalize (h, w) g = Inr None"
      unfolding n by auto
    with False show "if 0 < bbox_height g \<and> 1 / 10 \<le> sf \<and> sf \<le> 100
         then \<exists>ctx g'. normalize (h, w) g = Inr (Some (ctx, g'))
                \<and> scale_factor ctx = sf
                \<and> map (\<lambda>(k, v). position_v v) (vertices g')
                    = map (\<lambda>(k, v). (fst (position_v v) / scale_factor ctx,
                                        snd (position_v v) / scale_factor ctx)) (vertices g)
         else normalize (h, w) g = Inr None"
      by simp
  qed
qed

lemma scenario_d_graph_facts:
  "wf_graph scenario_d_graph" "vertices scenario_d_graph \<noteq> []"
  "bbox_width scenario_d_graph = 1000" "bbox_height scenario_d_graph = 800"
  by (simp_all add: wf_graph_def bbox_width_def bbox_height_def scenario_d_graph_def)

text \<open>
  Scenario D: the 1000 by 800 pixel box gives the scale factor 1000/12 pixels per metre
  and the vertex at (500, 400) is rewritten to (6, 4.8) metres.
\<close>

theorem normalize_scale_and_positions_witness:
  "\<exists>ctx g'. normalize (800, 1000) scenario_d_graph = Inr (Some (ctx, g'))
     \<and> scale_factor ctx = 1000 / 12
     \<and> map (\<lambda>(k, v). position_v v) (vertices g') = [(0, 0), (12, 48 / 5), (6, 24 / 5)]"
proof -
  have vs: "map (\<lambda>(k, v). (fst (position_v v) / (1000 / 12), snd (position_v v) / (1000 / 12)))
              (vertices scenario_d_graph) = [(0, 0), (12, 48 / 5), (6, 24 / 5)]"
    by (simp add: scenario_d_graph_def)
  have cond: "0 < bbox_height scenario_d_graph
            \<and> 1 / 10 \<le> max (bbox_width scenario_d_graph) (bbox_height scenario_d_graph) / REFERENCE_BUILDING_WIDTH
            \<and> max (bbox_width scenario_d_graph) (bbox_height scenario_d_graph) / REFERENCE_BUILDING_WIDTH \<le> 100"
    by (simp add: scenario_d_graph_facts(3,4) REFERENCE_BUILDING_WIDTH_def)
  from normalize_scale_and_positions [OF scenario_d_graph_facts(1,2), of 800 1000] cond
  have "\<exists>ctx g'. normalize (800, 1000) scenario_d_graph = Inr (Some (ctx, g'))
          \<and> scale_factor ctx
              = max (bbox_width scenario_d_graph) (bbox_height scenario_d_graph) / REFERENCE_BUILDING_WIDTH
          \<and> map (\<lambda>(k, v). position_v v) (vertices g')
              = map (\<lambda>(k, v). (fst (position_v v) / scale_factor ctx,
                                  snd (position_v v) / scale_factor ctx)) (vertices scenario_d_graph)"
    by (simp only: if_True)
  then obtain ctx g' where
    n: "normalize (800, 1000) scenario_d_graph = Inr (Some (ctx, g'))" and
    sf: "scale_factor ctx
           = max (bbox_width scenario_d_graph) (bbox_height scenario_d_graph) / REFERENCE_BUILDING_WIDTH" and
    p: "map (\<lambda>(k, v). position_v v) (vertices g')
          = map (\<lambda>(k, v). (fst (position_v v) / scale_factor ctx,
                              snd (position_v v) / scale_factor ctx)) (vertices scenario_d_graph)"
    by blast
  have sf': "scale_factor ctx = 1000 / 12"
    unfolding sf by (simp add: scenario_d_graph_facts(3,4) REFERENCE_BUILDING_WIDTH_def)
  have ps: "map (\<lambda>(k, v). position_v v) (vertices g') = [(0, 0), (12, 48 / 5), (6, 24 / 5)]"
    unfolding p sf' by (rule vs)
  show ?thesis
    by (intro exI [of _ ctx] exI [of _ g'] conjI) (rule n sf' ps)+
qed

text \<open>
  C3 as stated fails: both graphs below have vertices, and the normalizer neither keeps a
  scale factor nor rewrites a position for them. The first spans 2000 by 800 pixels, so the
  scale factor 2000/12 is above 100; the second is a single horizontal wall, whose
  bounding box has height 0.
\<close>

theorem normalize_nonempty_counterexample:
  "vertices wide_graph \<noteq> [] \<and> normalize (1000, 2500) wide_graph = Inr None
   \<and> vertices line_graph \<noteq> [] \<and> normalize (100, 100) line_graph = Inr None"
  by (simp add: normalize_def estimate_building_width_def estimate_building_height_def
        validate_context_def REFERENCE_BUILDING_WIDTH_def Let_def wide_graph_def line_graph_def)

section \<open>Mesh builder: the floor slab bounds the mesh from below\<close>

lemma round_half_even_bounds:
  "t - 1 / 2 \<le> of_int (round_half_even t)" "of_int (round_half_even t) \<le> t + 1 / 2"
proof -
  define f where "f = \<lfloor>t\<rfloor>"
  have f: "of_int f \<le> t" "t < of_int f + 1"
    unfolding f_def by linarith+
  have r: "round_half_even t =
             (if t - of_int f < 1 / 2 then f
              else if t - of_int f > 1 / 2 then f + 1
              else if even f then f else f + 1)"
    unfolding round_half_even_def Let_def f_def ..
  have d: "round_half_even t = f \<and> t - of_int f \<le> 1 / 2
           \<or> round_half_even t = f + 1 \<and> 1 / 2 \<le> t - of_int f"
    unfolding r by (cases "t - of_int f < 1 / 2"; cases "t - of_int f > 1 / 2"; cases "even f") auto
  from d f show "t - 1 / 2 \<le> of_int (round_half_even t)"
    by (elim disjE conjE) simp_all
  from d f show "of_int (round_half_even t) \<le> t + 1 / 2"
    by (elim disjE conjE) simp_all
qed

lemma round6_less:
  assumes "x + 1 / 10 \<le> y"
  shows "round6 x < round6 y"
proof -
  have "of_int (round_half_even (x * 1000000)) \<le> x * 1000000 + 1 / 2"
    by (rule round_half_even_bounds)
  also have "\<dots> < y * 1000000 - 1 / 2"
    using assms by simp
  also have "\<dots> \<le> of_int (round_half_even (y * 1000000))"
    by (rule round_half_even_bounds)
  finally show ?thesis
    by (simp add: round6_def divide_strict_right_mono)
qed

lemma fold_min_le: "fold min xs (a :: real) \<le> a"
proof (induction xs arbitrary: a)
  case Nil
  show ?case by simp
next
  case (Cons x xs)
  have "fold min xs (min x a) \<le> min x a" by (rule Cons.IH)
  then show ?case by simp
qed

lemma fold_max_ge: "(a :: real) \<le> fold max xs a"
proof (induction xs arbitrary: a)
  case Nil
  show ?case by simp
next
  case (Cons x xs)
  have "max x a \<le> fold max xs (max x a)" by (rule Cons.IH)
  then show ?case by simp
qed

lemma py_min_le_py_max: "py_min xs \<le> py_max xs"
proof (cases xs)
  case Nil
  then show ?thesis by simp
next
  case (Cons a as)
  have "fold min as a \<le> a" by (rule fold_min_le)
  also have "a \<le> fold max as a" by (rule fold_max_ge)
  finally show ?thesis by (simp add: Cons)
qed
lemma add_vertex_m_frame:
  "faces (fst (add_vertex_m m p n)) = faces m"
  "length (vertices_m m) \<le> length (vertices_m (fst (add_vertex_m m p n)))"
  "dom (vertex_hash_map (fst (add_vertex_m m p n))) = insert (position_key p) (dom (vertex_hash_map m))"
  by (auto simp: add_vertex_m_def Let_def split: option.splits)

lemma add_vertex_m_fresh:
  "position_key p \<notin> dom (vertex_hash_map m) \<Longrightarrow>
     length (vertices_m (fst (add_vertex_m m p n))) = Suc (length (vertices_m m))"
  by (auto simp: add_vertex_m_def Let_def split: option.splits)

lemma add_vertices_m_Cons:
  "add_vertices_m m (p # ps) =
     (fst (add_vertices_m (fst (add_vertex_m m p None)) ps),
      snd (add_vertex_m m p None) # snd (add_vertices_m (fst (add_vertex_m m p None)) ps))"
  by (simp split: prod.splits)

lemma add_vertices_m_faces: "faces (fst (add_vertices_m m ps)) = faces m"
  by (induction ps arbitrary: m)
     (simp_all add: add_vertices_m_Cons add_vertex_m_frame del: add_vertices_m.simps(2))

lemma add_vertices_m_mono:
  "length (vertices_m m) \<le> length (vertices_m (fst (add_vertices_m m ps)))"
proof (induction ps arbitrary: m)
  case Nil
  show ?case by simp
next
  case (Cons p ps)
  have "length (vertices_m m) \<le> length (vertices_m (fst (add_vertex_m m p None)))"
    by (rule add_vertex_m_frame)
  also have "\<dots> \<le> length (vertices_m (fst (add_vertices_m (fst (add_vertex_m m p None)) ps)))"
    by (rule Cons.IH)
  finally show ?case by (simp only: add_vertices_m_Cons fst_conv)
qed

lemma add_vertices_m_dom:
  "dom (vertex_hash_map (fst (add_vertices_m m ps))) = dom (vertex_hash_map m) \<union> position_key ` set ps"
  by (induction ps arbitrary: m)
     (simp_all add: add_vertices_m_Cons add_vertex_m_frame del: add_vertices_m.simps(2))

lemma add_vertices_m_indices: "length (snd (add_vertices_m m ps)) = length ps"
  by (induction ps arbitrary: m)
     (simp_all add: add_vertices_m_Cons del: add_vertices_m.simps(2))

lemma add_vertices_m_fresh:
  "distinct (map position_key ps) \<Longrightarrow>
   position_key ` set ps \<inter> dom (vertex_hash_map m) = {} \<Longrightarrow>
   length (vertices_m (fst (add_vertices_m m ps))) = length (vertices_m m) + length ps"
proof (induction ps arbitrary: m)
  case Nil
  show ?case by simp
next
  case (Cons p ps)
  let ?m1 = "fst (add_vertex_m m p None)"
  from Cons.prems(2) have "position_key p \<notin> dom (vertex_hash_map m)" by auto
  then have l1: "length (vertices_m ?m1) = Suc (length (vertices_m m))"
    by (rule add_vertex_m_fresh)
  have d1: "dom (vertex_hash_map ?m1) = insert (position_key p) (dom (vertex_hash_map m))"
    by (rule add_vertex_m_frame)
  have "distinct (map position_key ps)" using Cons.prems(1) by simp
  moreover have "position_key ` set ps \<inter> dom (vertex_hash_map ?m1) = {}"
    using Cons.prems unfolding d1 by auto
  ultimately have "length (vertices_m (fst (add_vertices_m ?m1 ps))) = length (vertices_m ?m1) + length ps"
    by (rule Cons.IH)
  with l1 show ?case by (simp only: add_vertices_m_Cons fst_conv) simp
qed

lemma add_faces_frame:
  "vertices_m (add_faces m fs) = vertices_m m"
  "length (faces (add_faces m fs)) = length (faces m) + length fs"
  by (induction m fs rule: add_faces.induct) (simp_all add: add_face_def)

lemma length_box_faces:
  assumes "length bs = 4" and "length ts = 4"
  shows "length (box_faces bs ts) = 12"
proof -
  from assms(1) obtain b0 b1 b2 b3 where bs: "bs = [b0, b1, b2, b3]"
    by (auto simp: length_Suc_conv numeral_eq_Suc)
  from assms(2) obtain t0 t1 t2 t3 where ts: "ts = [t0, t1, t2, t3]"
    by (auto simp: length_Suc_conv numeral_eq_Suc)
  show ?thesis unfolding bs ts by simp
qed

lemma add_box_counts:
  assumes b: "length bs = 4" and t: "length ts = 4"
  shows "length (vertices_m m) \<le> length (vertices_m (add_box m bs ts))"
    and "length (faces (add_box m bs ts)) = length (faces m) + 12"
    and "distinct (map position_key (bs @ ts)) \<Longrightarrow>
         position_key ` set (bs @ ts) \<inter> dom (vertex_hash_map m) = {} \<Longrightarrow>
         length (vertices_m (add_box m bs ts)) = length (vertices_m m) + 8"
proof -
  obtain m1 vb where a: "add_vertices_m m bs = (m1, vb)" by (cases "add_vertices_m m bs")
  obtain m2 vt where c: "add_vertices_m m1 ts = (m2, vt)" by (cases "add_vertices_m m1 ts")
  have m1: "m1 = fst (add_vertices_m m bs)" and vb: "vb = snd (add_vertices_m m bs)"
    using a by simp_all
  have m2: "m2 = fst (add_vertices_m m1 ts)" and vt: "vt = snd (add_vertices_m m1 ts)"
    using c by simp_all
  have r: "add_box m bs ts = add_faces m2 (box_faces vb vt)"
    using a c by (simp add: add_box_def)
  have lb: "length vb = 4" unfolding vb using b by (simp add: add_vertices_m_indices)
  have lt: "length vt = 4" unfolding vt using t by (simp add: add_vertices_m_indices)
  have "length (vertices_m m) \<le> length (vertices_m m1)"
    unfolding m1 by (rule add_vertices_m_mono)
  also have "\<dots> \<le> length (vertices_m m2)"
    unfolding m2 by (rule add_vertices_m_mono)
  finally show "length (vertices_m m) \<le> length (vertices_m (add_box m bs ts))"
    unfolding r add_faces_frame(1) .
  have "faces m2 = faces m"
    unfolding m2 m1 by (simp only: add_vertices_m_faces)
  then show "length (faces (add_box m bs ts)) = length (faces m) + 12"
    unfolding r add_faces_frame(2) length_box_faces [OF lb lt] by simp
  assume d: "distinct (map position_key (bs @ ts))"
    and e: "position_key ` set (bs @ ts) \<inter> dom (vertex_hash_map m) = {}"
  have "length (vertices_m m1) = length (vertices_m m) + length bs"
    unfolding m1 using d e by (intro add_vertices_m_fresh) auto
  moreover have "length (vertices_m m2) = length (vertices_m m1) + length ts"
    unfolding m2
  proof (rule add_vertices_m_fresh)
    show "distinct (map position_key ts)" using d by simp
    show "position_key ` set ts \<inter> dom (vertex_hash_map m1) = {}"
      unfolding m1 add_vertices_m_dom using d e by auto
  qed
  ultimately show "length (vertices_m (add_box m bs ts)) = length (vertices_m m) + 8"
    unfolding r add_faces_frame(1) using b t by simp
qed

lemma extrude_wall_edge_mono:
  "length (vertices_m m) \<le> length (vertices_m (extrude_wall_edge ps pe th ht m))"
  "length (faces m) \<le> length (faces (extrude_wall_edge ps pe th ht m))"
  by (simp_all add: extrude_wall_edge_def Let_def add_box_counts)

lemma extrude_edges_mono:
  "extrude_edges g m es = Inr m' \<Longrightarrow>
     length (vertices_m m) \<le> length (vertices_m m') \<and> length (faces m) \<le> length (faces m')"
proof (induction es arbitrary: m)
  case Nil
  then show ?case by simp
next
  case (Cons ke es)
  obtain k edge where ke: "ke = (k, edge)" by (cases ke)
  from Cons.prems obtain va vb :: WallVertex where
    "extrude_edges g (extrude_wall_edge (position_v va) (position_v vb) WALL_THICKNESS WALL_HEIGHT m) es = Inr m'"
    by (auto simp: ke split: option.splits)
  from Cons.IH [OF this]
    extrude_wall_edge_mono [of m "position_v va" "position_v vb" WALL_THICKNESS WALL_HEIGHT]
  show ?case by linarith
qed

lemma extrude_edges_total:
  "\<forall>(k, e) \<in> set es. vertex_a e \<in> fst ` set (vertices g) \<and> vertex_b e \<in> fst ` set (vertices g)
   \<Longrightarrow> \<exists>m'. extrude_edges g m es = Inr m'"
proof (induction es arbitrary: m)
  case Nil
  show ?case by simp
next
  case (Cons ke es)
  obtain k edge where ke: "ke = (k, edge)" by (cases ke)
  from Cons.prems have "vertex_a edge \<in> fst ` set (vertices g)" "vertex_b edge \<in> fst ` set (vertices g)"
    by (auto simp: ke)
  then obtain va vb where "map_of (vertices g) (vertex_a edge) = Some va"
    "map_of (vertices g) (vertex_b edge) = Some vb"
    by (metis map_of_eq_None_iff not_Some_eq)
  moreover from Cons.prems have
    "\<forall>(k, e) \<in> set es. vertex_a e \<in> fst ` set (vertices g) \<and> vertex_b e \<in> fst ` set (vertices g)"
    by simp
  from Cons.IH [OF this] have
    "\<exists>m'. extrude_edges g (extrude_wall_edge (position_v va) (position_v vb) WALL_THICKNESS WALL_HEIGHT m) es = Inr m'" .
  ultimately show ?case by (simp add: ke)
qed

lemma accumulate_normals_lengths:
  "length (fst (accumulate_normals np_cross vs fs vn)) = length fs
   \<and> length (snd (accumulate_normals np_cross vs fs vn)) = length vn"
proof (induction fs arbitrary: vn)
  case Nil
  show ?case by simp
next
  case (Cons face rest)
  have IH1: "\<And>vn. length (fst (accumulate_normals np_cross vs rest vn)) = length rest"
    and IH2: "\<And>vn. length (snd (accumulate_normals np_cross vs rest vn)) = length vn"
    using Cons.IH by blast+
  show ?case
    by (simp add: Let_def split_beta IH1 IH2 split: option.split)
qed

lemma recalculate_normals_lengths:
  "length (vertices_m (recalculate_normals np_cross m)) = length (vertices_m m)"
  "length (faces (recalculate_normals np_cross m)) = length (faces m)"
proof -
  obtain fs vn where a: "accumulate_normals np_cross (vertices_m m) (faces m)
                           (replicate (length (vertices_m m)) (0, 0, 0)) = (fs, vn)"
    by (cases "accumulate_normals np_cross (vertices_m m) (faces m) (replicate (length (vertices_m m)) (0, 0, 0))")
  from accumulate_normals_lengths [of np_cross "vertices_m m" "faces m" "replicate (length (vertices_m m)) (0, 0, 0)"]
  have "length fs = length (faces m)" "length vn = length (vertices_m m)"
    unfolding a by simp_all
  then show "length (vertices_m (recalculate_normals np_cross m)) = length (vertices_m m)"
    and "length (faces (recalculate_normals np_cross m)) = length (faces m)"
    by (simp_all add: recalculate_normals_def a)
qed
lemma box_keys_distinct:
  "a \<noteq> b \<Longrightarrow> c \<noteq> d \<Longrightarrow> e \<noteq> f \<Longrightarrow>
   distinct [(a, c, e), (b, c, e), (b, d, e), (a, d, e), (a, c, f), (b, c, f), (b, d, f), (a, d, f)]"
  by auto

lemma build_floor_slab_counts:
  assumes ne: "vertices g \<noteq> []"
  shows "length (vertices_m (build_floor_slab g (Mesh_init nm))) = 8"
    and "length (faces (build_floor_slab g (Mesh_init nm))) = 12"
proof -
  define xl where "xl = py_min (map (\<lambda>(k, v). fst (position_v v)) (vertices g)) - 1 / 2"
  define xh where "xh = py_max (map (\<lambda>(k, v). fst (position_v v)) (vertices g)) + 1 / 2"
  define yl where "yl = py_min (map (\<lambda>(k, v). snd (position_v v)) (vertices g)) - 1 / 2"
  define yh where "yh = py_max (map (\<lambda>(k, v). snd (position_v v)) (vertices g)) + 1 / 2"
  define zb where "zb = - FLOOR_SLAB_THICKNESS"
  let ?bs = "[(xl, yl, zb), (xh, yl, zb), (xh, yh, zb), (xl, yh, zb)]"
  let ?ts = "[(xl, yl, 0), (xh, yl, 0), (xh, yh, 0), (xl, yh, 0)]"
  have slab: "build_floor_slab g (Mesh_init nm) = add_box (Mesh_init nm) ?bs ?ts"
    using ne by (simp add: build_floor_slab_def Let_def xl_def xh_def yl_def yh_def zb_def)
  have "xl + 1 / 10 \<le> xh"
    using py_min_le_py_max [of "map (\<lambda>(k, v). fst (position_v v)) (vertices g)"]
    by (simp add: xl_def xh_def)
  then have rx: "round6 xl \<noteq> round6 xh"
    using round6_less [of xl xh] by simp
  have "yl + 1 / 10 \<le> yh"
    using py_min_le_py_max [of "map (\<lambda>(k, v). snd (position_v v)) (vertices g)"]
    by (simp add: yl_def yh_def)
  then have ry: "round6 yl \<noteq> round6 yh"
    using round6_less [of yl yh] by simp
  have "zb + 1 / 10 \<le> 0"
    by (simp add: zb_def FLOOR_SLAB_THICKNESS_def)
  then have rz: "round6 zb \<noteq> round6 0"
    using round6_less [of zb 0] by simp
  have keys: "map position_key (?bs @ ?ts) =
                [(round6 xl, round6 yl, round6 zb), (round6 xh, round6 yl, round6 zb),
                 (round6 xh, round6 yh, round6 zb), (round6 xl, round6 yh, round6 zb),
                 (round6 xl, round6 yl, round6 0), (round6 xh, round6 yl, round6 0),
                 (round6 xh, round6 yh, round6 0), (round6 xl, round6 yh, round6 0)]"
    by (simp add: position_key_def)
  have d: "distinct (map position_key (?bs @ ?ts))"
    unfolding keys by (rule box_keys_distinct [OF rx ry rz])
  have e: "position_key ` set (?bs @ ?ts) \<inter> dom (vertex_hash_map (Mesh_init nm)) = {}"
    by (simp add: Mesh_init_def)
  have l4: "length ?bs = 4" "length ?ts = 4" by simp_all
  from add_box_counts(3) [OF l4 d e]
  show "length (vertices_m (build_floor_slab g (Mesh_init nm))) = 8"
    unfolding slab by (simp add: Mesh_init_def)
  from add_box_counts(2) [OF l4, of "Mesh_init nm"]
  show "length (faces (build_floor_slab g (Mesh_init nm))) = 12"
    unfolding slab by (simp add: Mesh_init_def)
qed

text \<open>
  C6. For a wall graph with the class invariant (the normalizer's output has it, see
  \<open>transform_wall_graph_result\<close>): without edges \<open>build\<close> returns \<open>None\<close>; with at least
  one edge it returns a mesh that has at least 8 vertices and at least 12 faces (the
  floor slab gives exactly 8 and 12, the walls and the normals take none away). This
  holds whatever the library's cross product returns or raises.
\<close>

theorem build_mesh_counts:
  assumes wf: "wf_graph g"
  shows "if edges g = [] then build np_cross g = None
         else (\<exists>m. build np_cross g = Some m \<and> 8 \<le> length (vertices_m m) \<and> 12 \<le> length (faces m))"
proof (cases "edges g = []")
  case True
  then show ?thesis by (simp add: build_def build_walls_def)
next
  case False
  from wf have ends: "\<forall>(k, e) \<in> set (edges g).
      vertex_a e \<in> fst ` set (vertices g) \<and> vertex_b e \<in> fst ` set (vertices g)"
    by (auto simp: wf_graph_def list_all_iff)
  from False obtain k e rest where "edges g = (k, e) # rest"
    by (cases "edges g") auto
  with ends have "vertex_a e \<in> fst ` set (vertices g)" by simp
  then have ne: "vertices g \<noteq> []" by auto
  let ?floor = "build_floor_slab g (Mesh_init ''cutaway_model'')"
  from extrude_edges_total [OF ends] obtain m1 where
    m1: "extrude_edges g ?floor (edges g) = Inr m1"
    by blast
  from extrude_edges_mono [OF m1] build_floor_slab_counts [OF ne, of "''cutaway_model''"]
  have "8 \<le> length (vertices_m m1)" "12 \<le> length (faces m1)"
    by simp_all
  then have "8 \<le> length (vertices_m (recalculate_normals np_cross m1))"
    "12 \<le> length (faces (recalculate_normals np_cross m1))"
    by (simp_all add: recalculate_normals_lengths)
  moreover have "build np_cross g = Some (recalculate_normals np_cross m1)"
    using False m1 by (simp add: build_def build_walls_def Let_def)
  ultimately show ?thesis
    using False by simp
qed

theorem build_mesh_counts_witness:
  "(\<exists>m. build (\<lambda>a b. Some (cross3 a b)) path_graph = Some m \<and> 8 \<le> length (vertices_m m) \<and> 12 \<le> length (faces m))
   \<and> build (\<lambda>a b. None) edgeless_graph = None"
proof -
  have w1: "wf_graph path_graph"
    by (simp add: wf_graph_def path_graph_def)
  have w2: "wf_graph edgeless_graph"
    by (simp add: wf_graph_def edgeless_graph_def)
  have e1: "edges path_graph \<noteq> []"
    by (simp add: path_graph_def)
  have e2: "edges edgeless_graph = []"
    by (simp add: edgeless_graph_def)
  from build_mesh_counts [OF w1] e1
  have a: "\<exists>m. build (\<lambda>a b. Some (cross3 a b)) path_graph = Some m \<and> 8 \<le> length (vertices_m m) \<and> 12 \<le> length (faces m)"
    by (simp only: if_False)
  from build_mesh_counts [OF w2] e2
  have b: "build (\<lambda>a b. None) edgeless_graph = None"
    by (simp only: if_True)
  from a b show ?thesis by (rule conjI)
qed

section \<open>Room detection: accepted rooms do not overlap\<close>















end
